(* ===== verification/Prelude.thy ===== *)
theory Prelude
  imports Complex_Main
begin

text \<open>
  Shared vocabulary of the development. Python exceptions are values of \<open>exc\<close>;
  the Python primitives that raise (\<open>%\<close> and \<open>/\<close> by zero, indexing out of range)
  are functions into \<open>exc + 'a\<close>. A sequence of statements that updates local state
  and may raise part-way is a function of the exception-state type \<open>('a, 's) exn\<close>:
  \<open>Inl (e, s)\<close> is "raised \<open>e\<close>, with the state \<open>s\<close> reached when it was raised",
  so the effects that precede a raise survive it, as in Python.
  Python \<open>int\<close> is \<open>int\<close>; a finite Python \<open>float\<close> is idealised as \<open>real\<close>
  (no rounding). The numpy scalars that \<^verbatim>\<open>sess.run\<close> returns are \<open>pyfloat\<close>:
  a finite value, NaN, or an infinity, because numpy division by zero does not raise
  but returns NaN (\<open>0 / 0\<close>) or an infinity, and Python's \<open><=\<close> is false when
  either side is NaN (IEEE 754).
\<close>

named_theorems exn_simps "evaluation rules of the exception-state combinators"
named_theorems py_simps "evaluation rules of the Python primitives"

section \<open>Python exceptions\<close>

text \<open>
  \<open>KeyboardInterrupt\<close> derives from \<open>BaseException\<close> but not from \<open>Exception\<close>,
  so an \<^verbatim>\<open>except Exception\<close> clause does not catch it. \<open>LibraryError\<close> stands
  for any \<open>Exception\<close> raised inside a library call (TensorFlow, the sampler's
  processes), carrying its message.
\<close>

datatype exc =
    ZeroDivisionError
  | IndexError
  | ValueError
  | LibraryError string
  | KeyboardInterrupt

fun is_Exception :: "exc \<Rightarrow> bool" where
  "is_Exception KeyboardInterrupt = False"
| "is_Exception _ = True"

section \<open>Python primitives that raise\<close>

text \<open>\<open>a % b\<close> on Python ints: floored, sign of the divisor, as HOL's \<open>mod\<close> on \<open>int\<close>.\<close>

definition py_mod :: "int \<Rightarrow> int \<Rightarrow> exc + int" where
  "py_mod a b = (if b = 0 then Inl ZeroDivisionError else Inr (a mod b))"

text \<open>\<open>a / b\<close> on Python floats raises on a zero divisor.\<close>

definition py_div :: "real \<Rightarrow> real \<Rightarrow> exc + real" where
  "py_div a b = (if b = 0 then Inl ZeroDivisionError else Inr (a / b))"

text \<open>\<open>xs[i]\<close>: a negative index counts from the end.\<close>

definition py_index :: "'a list \<Rightarrow> int \<Rightarrow> exc + 'a" where
  "py_index xs i =
     (if - int (length xs) \<le> i \<and> i < int (length xs)
      then Inr (xs ! nat (if i < 0 then i + int (length xs) else i))
      else Inl IndexError)"

section \<open>numpy floats\<close>

datatype pyfloat = Fin real | NaN | PInf | NInf

text \<open>\<open>a / b\<close> where \<open>b\<close> is a numpy scalar: IEEE division, no exception.\<close>

definition np_div :: "real \<Rightarrow> real \<Rightarrow> pyfloat" where
  "np_div a b = (if b \<noteq> 0 then Fin (a / b) else if a = 0 then NaN else if 0 < a then PInf else NInf)"

text \<open>Python's \<open>x <= y\<close> on floats: false when either side is NaN.\<close>

fun py_le :: "pyfloat \<Rightarrow> pyfloat \<Rightarrow> bool" where
  "py_le NaN y = False"
| "py_le x NaN = False"
| "py_le NInf y = True"
| "py_le x PInf = True"
| "py_le PInf y = False"
| "py_le x NInf = False"
| "py_le (Fin a) (Fin b) = (a \<le> b)"

instantiation pyfloat :: ord
begin

definition less_eq_pyfloat :: "pyfloat \<Rightarrow> pyfloat \<Rightarrow> bool" where
  "less_eq_pyfloat x y \<longleftrightarrow> py_le x y"

definition less_pyfloat :: "pyfloat \<Rightarrow> pyfloat \<Rightarrow> bool" where
  "less_pyfloat x y \<longleftrightarrow> py_le x y \<and> \<not> py_le y x"

instance ..

end

section \<open>Statements with exceptions and local state\<close>

type_synonym ('a, 's) exn = "'s \<Rightarrow> (exc \<times> 's) + ('a \<times> 's)"

definition returnE :: "'a \<Rightarrow> ('a, 's) exn" where
  "returnE x = (\<lambda>s. Inr (x, s))"

definition raiseE :: "exc \<Rightarrow> ('a, 's) exn" where
  "raiseE e = (\<lambda>s. Inl (e, s))"

text \<open>A call of a pure primitive that may raise.\<close>

definition liftE :: "exc + 'a \<Rightarrow> ('a, 's) exn" where
  "liftE r = (\<lambda>s. case r of Inl e \<Rightarrow> Inl (e, s) | Inr x \<Rightarrow> Inr (x, s))"

definition getsE :: "('s \<Rightarrow> 'a) \<Rightarrow> ('a, 's) exn" where
  "getsE f = (\<lambda>s. Inr (f s, s))"

definition modifyE :: "('s \<Rightarrow> 's) \<Rightarrow> (unit, 's) exn" where
  "modifyE f = (\<lambda>s. Inr ((), f s))"

definition bindE :: "('a, 's) exn \<Rightarrow> ('a \<Rightarrow> ('b, 's) exn) \<Rightarrow> ('b, 's) exn" where
  "bindE m f = (\<lambda>s. case m s of Inl es \<Rightarrow> Inl es | Inr (x, s') \<Rightarrow> f x s')"

section \<open>Lemmas\<close>

lemma py_mod_simps [py_simps, simp]:
  "py_mod a 0 = Inl ZeroDivisionError"
  "b \<noteq> 0 \<Longrightarrow> py_mod a b = Inr (a mod b)"
  by (simp_all add: py_mod_def)

lemma py_div_simps [py_simps, simp]:
  "py_div a 0 = Inl ZeroDivisionError"
  "b \<noteq> 0 \<Longrightarrow> py_div a b = Inr (a / b)"
  by (simp_all add: py_div_def)

lemma pyfloat_le [py_simps, simp]:
  "Fin a \<le> Fin b \<longleftrightarrow> a \<le> b"
  "\<not> NaN \<le> x" "\<not> x \<le> NaN"
  by (simp_all add: less_eq_pyfloat_def) (cases x; simp)

lemma pyfloat_le_refl: "x \<le> x \<longleftrightarrow> x \<noteq> NaN"
  by (cases x) (simp_all add: less_eq_pyfloat_def)

lemma np_div_simps [py_simps, simp]:
  "b \<noteq> 0 \<Longrightarrow> np_div a b = Fin (a / b)"
  "np_div 0 0 = NaN"
  by (simp_all add: np_div_def)

lemma py_index_last [py_simps, simp]:
  "py_index (xs @ [x]) (-1) = Inr x"
  by (simp add: py_index_def nth_append)

lemma py_index_last2 [py_simps, simp]:
  "xs \<noteq> [] \<Longrightarrow> py_index (xs @ [x]) (-2) = Inr (last xs)"
proof -
  assume "xs \<noteq> []"
  then have "xs ! (length xs - 1) = last xs" by (simp add: last_conv_nth)
  moreover have "nat (int (length xs) - 1) = length xs - 1" by simp
  ultimately show ?thesis
    using \<open>xs \<noteq> []\<close> by (simp add: py_index_def nth_append Let_def Suc_le_eq)
qed

lemma py_index_neg2_short:
  "py_index [x] (-2) = Inl IndexError"
  by (simp add: py_index_def)

lemma exn_simps_basic [exn_simps, simp]:
  "returnE x s = Inr (x, s)"
  "raiseE e s = Inl (e, s)"
  "liftE (Inl e) s = Inl (e, s)"
  "liftE (Inr x) s = Inr (x, s)"
  "getsE f s = Inr (f s, s)"
  "modifyE g s = Inr ((), g s)"
  by (simp_all add: returnE_def raiseE_def liftE_def getsE_def modifyE_def)

lemma bindE_apply [exn_simps]:
  "bindE m f s = (case m s of Inl es \<Rightarrow> Inl es | Inr (x, s') \<Rightarrow> f x s')"
  by (simp add: bindE_def)

lemma bindE_Inl [exn_simps, simp]:
  "m s = Inl es \<Longrightarrow> bindE m f s = Inl es"
  by (simp add: bindE_def)

lemma bindE_Inr [exn_simps, simp]:
  "m s = Inr (x, s') \<Longrightarrow> bindE m f s = f x s'"
  by (simp add: bindE_def)

lemma bindE_assoc [exn_simps]:
  "bindE (bindE m f) g = bindE m (\<lambda>x. bindE (f x) g)"
  by (rule ext) (simp add: bindE_def split: sum.splits prod.splits)

lemma bindE_simple [exn_simps, simp]:
  "bindE (returnE x) f = f x"
  "bindE (getsE h) f = (\<lambda>s. f (h s) s)"
  "bindE (modifyE g) f = (\<lambda>s. f () (g s))"
  "bindE (liftE (Inr x)) f = f x"
  "bindE (liftE (Inl e)) f = raiseE e"
  by (simp_all add: bindE_def fun_eq_iff)

text \<open>Prepending to the first component of an optional pair, as the sampler's draws do.\<close>

lemma map_option_cons_Some [py_simps, simp]:
  "map_option (\<lambda>(xs, r). (x # xs, r)) m = Some (ys, r') \<longleftrightarrow> (\<exists>xs. m = Some (xs, r') \<and> ys = x # xs)"
  by (cases m) auto

end
