(* ===== verification/Evaluation.thy ===== *)
theory Evaluation
  imports Prelude
begin

text \<open>
  The evaluation harness, \<^verbatim>\<open>evaluate(source, sess)\<close> of
  \<^verbatim>\<open>src/AutoInt/sequentialRec/neural/train.py\<close> (lines 77--92). An evaluation
  batch is the tuple \<open>(users, inputs, positives)\<close> built by \<^verbatim>\<open>prepare_eval_test\<close>;
  \<open>evaluate\<close> feeds \<^verbatim>\<open>batch[1]\<close> and \<^verbatim>\<open>batch[2]\<close> with dropout \<open>0\<close> to the
  model, whose three outputs \<^verbatim>\<open>hit_at_k\<close>, \<^verbatim>\<open>ndcg_at_k\<close>, \<^verbatim>\<open>num_target\<close>
  are the interface \<open>run\<close> (a \<^verbatim>\<open>sess.run\<close> call, which may raise). The sums are
  divided by the total target count: on an empty source with Python float division,
  which raises \<^verbatim>\<open>ZeroDivisionError\<close>, otherwise with numpy division, which
  returns NaN when no batch has a target.

  The lemmas show: the accumulation is the sum of the batch statistics; an error
  of any batch is the error of the whole evaluation; the result is an error exactly
  when the source is empty, and NaN when it is not but the total target count is zero;
  the metrics lie in \<open>[0, 1]\<close> for a scorer whose statistics are well formed.
\<close>

type_synonym stats = "real \<times> real \<times> real"
type_synonym ('u, 'x, 'y) eval_batch = "'u \<times> 'x \<times> 'y"
type_synonym ('x, 'y) scorer = "'x \<Rightarrow> 'y \<Rightarrow> real \<Rightarrow> exc + stats"

section \<open>Definitions\<close>

fun add_stats :: "stats \<Rightarrow> stats \<Rightarrow> stats" where
  "add_stats (h, n, c) (h', n', c') = (h + h', n + n', c + c')"

definition zero_stats :: stats where
  "zero_stats = (0, 0, 0)"

definition sum_stats :: "stats list \<Rightarrow> stats" where
  "sum_stats xs = foldr add_stats xs zero_stats"

text \<open>The \<^verbatim>\<open>for batch in source\<close> loop (lines 81--87), accumulator \<open>(total_hit_k, total_ndcg_k, count)\<close>.\<close>

fun evaluate_acc :: "('x, 'y) scorer \<Rightarrow> ('u, 'x, 'y) eval_batch list \<Rightarrow> stats \<Rightarrow> exc + stats" where
  "evaluate_acc run [] acc = Inr acc"
| "evaluate_acc run ((u, inp, pos) # bs) (th, tn, cnt) =
     (case run inp pos 0 of
        Inl e \<Rightarrow> Inl e
      | Inr (hit, ndcg, n_target) \<Rightarrow>
          evaluate_acc run bs (th + hit, tn + ndcg, cnt + n_target))"

text \<open>
  Lines 77--92: the loop, then the two divisions by \<open>count\<close>. When the loop body
  never ran, the accumulators are still the Python floats \<open>0.0\<close> of lines 78--80 and
  line 89 raises \<^verbatim>\<open>ZeroDivisionError\<close>; after one \<^verbatim>\<open>sess.run\<close> they are numpy
  scalars and the divisions are numpy's (\<open>np_div\<close>), which give NaN or an infinity
  on a zero count instead of raising.
\<close>

definition evaluate :: "('x, 'y) scorer \<Rightarrow> ('u, 'x, 'y) eval_batch list \<Rightarrow> exc + pyfloat \<times> pyfloat" where
  "evaluate run source =
     (case evaluate_acc run source (0, 0, 0) of
        Inl e \<Rightarrow> Inl e
      | Inr (th, tn, cnt) \<Rightarrow>
          if source = [] then
            (case py_div th cnt of
               Inl e \<Rightarrow> Inl e
             | Inr val_hit \<Rightarrow>
                 (case py_div tn cnt of
                    Inl e \<Rightarrow> Inl e
                  | Inr val_ndcg \<Rightarrow> Inr (Fin val_hit, Fin val_ndcg)))
          else Inr (np_div th cnt, np_div tn cnt))"

text \<open>The statistics of a batch when the scorer never raises.\<close>

definition batch_stats :: "('x \<Rightarrow> 'y \<Rightarrow> stats) \<Rightarrow> ('u, 'x, 'y) eval_batch \<Rightarrow> stats" where
  "batch_stats g b = g (fst (snd b)) (snd (snd b))"

definition total_scorer :: "('x \<Rightarrow> 'y \<Rightarrow> stats) \<Rightarrow> ('x, 'y) scorer" where
  "total_scorer g = (\<lambda>x y d. Inr (g x y))"

text \<open>Well-formed statistics: \<open>0 \<le> ndcg \<le> hit \<le> n_target\<close> (a hit contributes at most \<open>1\<close> to NDCG).\<close>

fun stats_ok :: "stats \<Rightarrow> bool" where
  "stats_ok (h, n, c) \<longleftrightarrow> 0 \<le> n \<and> n \<le> h \<and> h \<le> c"

text \<open>A scorer whose \<^verbatim>\<open>sess.run\<close> raises on input \<open>0\<close>, used by the examples.\<close>

definition oom_run :: "nat \<Rightarrow> unit \<Rightarrow> real \<Rightarrow> exc + stats" where
  "oom_run x y d = (if x = 0 then Inl (LibraryError ''OOM'') else Inr (1, 1, 1))"

section \<open>Lemmas\<close>

lemma add_stats_assoc: "add_stats (add_stats a b) c = add_stats a (add_stats b c)"
  by (cases a; cases b; cases c) (simp add: add.assoc)

lemma add_stats_zero [simp]: "add_stats a zero_stats = a" "add_stats zero_stats a = a"
  by (cases a; simp add: zero_stats_def)+

lemma sum_stats_simps [simp]:
  "sum_stats [] = zero_stats"
  "sum_stats (x # xs) = add_stats x (sum_stats xs)"
  by (simp_all add: sum_stats_def)

lemma sum_stats_append [simp]: "sum_stats (xs @ ys) = add_stats (sum_stats xs) (sum_stats ys)"
  by (induction xs) (simp_all add: add_stats_assoc)

lemma stats_ok_add: "stats_ok a \<Longrightarrow> stats_ok b \<Longrightarrow> stats_ok (add_stats a b)"
  by (cases a; cases b) simp

lemma stats_ok_sum: "\<forall>x \<in> set xs. stats_ok x \<Longrightarrow> stats_ok (sum_stats xs)"
  by (induction xs) (simp_all add: zero_stats_def stats_ok_add)

text \<open>With a scorer that never raises, the loop adds up the batch statistics.\<close>

lemma evaluate_acc_total:
  "evaluate_acc (total_scorer g) bs acc = Inr (add_stats acc (sum_stats (map (batch_stats g) bs)))"
proof (induction bs arbitrary: acc)
  case Nil
  then show ?case by simp
next
  case (Cons b bs)
  obtain u x y where b: "b = (u, x, y)" by (cases b)
  obtain th tn cnt where acc: "acc = (th, tn, cnt)" by (cases acc)
  obtain h n c where g: "g x y = (h, n, c)" by (cases "g x y")
  show ?case
    using Cons.IH [of "(th + h, tn + n, cnt + c)"]
    by (simp add: b acc g total_scorer_def batch_stats_def add_stats_assoc [symmetric] add.assoc)
qed

text \<open>The first batch whose scoring raises decides the outcome of the loop.\<close>

lemma evaluate_acc_error:
  assumes "\<forall>b \<in> set pre. \<exists>s. run (fst (snd b)) (snd (snd b)) 0 = Inr s"
    and "run x y 0 = Inl e"
  shows "evaluate_acc run (pre @ (u, x, y) # post) acc = Inl e"
  using assms
proof (induction pre arbitrary: acc)
  case Nil
  then show ?case by (cases acc) simp
next
  case (Cons b pre)
  obtain u' x' y' where b: "b = (u', x', y')" by (cases b)
  from Cons.prems(1) obtain h n c where r: "run x' y' 0 = Inr (h, n, c)"
    by (auto simp: b)
  show ?case
    using Cons.IH Cons.prems by (cases acc) (simp add: b r)
qed

lemma evaluate_sum:
  assumes "evaluate_acc run source (0, 0, 0) = Inr (th, tn, cnt)"
  shows "evaluate run source =
           (if source = [] then Inl ZeroDivisionError else Inr (np_div th cnt, np_div tn cnt))"
  using assms by (cases source) (simp_all add: evaluate_def)

lemma evaluate_total_sum:
  assumes "sum_stats (map (batch_stats g) bs) = (th, tn, cnt)"
  shows "evaluate (total_scorer g) bs =
           (if bs = [] then Inl ZeroDivisionError else Inr (np_div th cnt, np_div tn cnt))"
proof -
  have "evaluate_acc (total_scorer g) bs (0, 0, 0) = Inr (th, tn, cnt)"
    using evaluate_acc_total [of g bs "(0, 0, 0)"] assms by (simp add: zero_stats_def [symmetric])
  then show ?thesis by (rule evaluate_sum)
qed

section \<open>Properties\<close>

text \<open>
  C11. With a scorer that never raises, \<open>evaluate\<close> raises \<^verbatim>\<open>ZeroDivisionError\<close>
  on an empty source and otherwise returns the summed hit count and NDCG divided by the
  summed target count with numpy division: NaN, not an exception, when that count is zero.
\<close>

theorem evaluate_total:
  "evaluate (total_scorer g) bs =
     (if bs = [] then Inl ZeroDivisionError
      else (case sum_stats (map (batch_stats g) bs) of (th, tn, cnt) \<Rightarrow> Inr (np_div th cnt, np_div tn cnt)))"
proof -
  obtain th tn cnt where s: "sum_stats (map (batch_stats g) bs) = (th, tn, cnt)"
    by (cases "sum_stats (map (batch_stats g) bs)")
  then show ?thesis by (simp add: evaluate_total_sum)
qed

text \<open>
  C12. When every batch reports well-formed statistics (\<open>0 \<le> ndcg \<le> hit \<le> n_target\<close>),
  a result of \<open>evaluate\<close> is either NaN for both metrics (no batch had a target) or
  finite Hit@K and NDCG@K in \<open>[0, 1]\<close> with NDCG@K at most Hit@K.
\<close>

theorem evaluate_metrics_bounded:
  assumes "\<forall>b \<in> set bs. stats_ok (batch_stats g b)"
    and "evaluate (total_scorer g) bs = Inr (val_hit, val_ndcg)"
  shows "(val_hit = NaN \<and> val_ndcg = NaN)
         \<or> (\<exists>h n. val_hit = Fin h \<and> val_ndcg = Fin n \<and> 0 \<le> n \<and> n \<le> h \<and> h \<le> 1)"
proof -
  obtain th tn cnt where s: "sum_stats (map (batch_stats g) bs) = (th, tn, cnt)"
    by (cases "sum_stats (map (batch_stats g) bs)")
  have ok: "stats_ok (th, tn, cnt)"
    using stats_ok_sum [of "map (batch_stats g) bs"] assms(1) s by auto
  from assms(2) have v: "val_hit = np_div th cnt" "val_ndcg = np_div tn cnt"
    by (simp_all add: evaluate_total_sum [OF s] split: if_splits)
  show ?thesis
  proof (cases "cnt = 0")
    case True
    with ok have "th = 0" "tn = 0" by simp_all
    with True v show ?thesis by simp
  next
    case False
    with ok have pos: "0 < cnt" by auto
    from ok pos have "0 \<le> tn / cnt \<and> tn / cnt \<le> th / cnt \<and> th / cnt \<le> 1"
      by (simp add: divide_right_mono divide_le_eq_1)
    with False v show ?thesis by simp
  qed
qed

theorem evaluate_metrics_bounded_witness:
  "stats_ok (batch_stats (\<lambda>x y. (x, x / 2, y)) ((), 1::real, 2::real))
   \<and> stats_ok (batch_stats (\<lambda>x y. (x, x / 2, y)) ((), 0::real, 1::real))
   \<and> evaluate (total_scorer (\<lambda>x y. (x, x / 2, y))) [((), 1::real, 2::real), ((), 0, 1)] = Inr (Fin (1/3), Fin (1/6))
   \<and> 0 \<le> (1/6::real) \<and> (1/6::real) \<le> 1/3 \<and> (1/3::real) \<le> 1"
proof -
  have h: "\<forall>b \<in> set [((), 1::real, 2::real), ((), 0, 1)]. stats_ok (batch_stats (\<lambda>x y. (x, x / 2, y)) b)"
    by (simp add: batch_stats_def)
  have e: "evaluate (total_scorer (\<lambda>x y. (x, x / 2, y))) [((), 1::real, 2::real), ((), 0, 1)] = Inr (Fin (1/3), Fin (1/6))"
    by (simp add: evaluate_def total_scorer_def)
  show ?thesis using evaluate_metrics_bounded [OF h e] h e by simp
qed

text \<open>
  C13. If scoring a batch raises and every earlier batch scored normally, \<open>evaluate\<close>
  raises that exception: no later batch is scored and no metric is returned.
\<close>

theorem evaluate_first_error:
  assumes "\<forall>b \<in> set pre. \<exists>s. run (fst (snd b)) (snd (snd b)) 0 = Inr s"
    and "run x y 0 = Inl e"
  shows "evaluate run (pre @ (u, x, y) # post) = Inl e"
  using evaluate_acc_error [of pre run x y e u post "(0, 0, 0)"] assms by (simp add: evaluate_def)

theorem evaluate_first_error_witness:
  "evaluate oom_run [((), 1, ()), ((), 0, ()), ((), 2, ())] = Inl (LibraryError ''OOM'')"
proof -
  have h1: "\<forall>b \<in> set [((), 1::nat, ())]. \<exists>s. oom_run (fst (snd b)) (snd (snd b)) 0 = Inr s"
    by (simp add: oom_run_def)
  have h2: "oom_run 0 () 0 = Inl (LibraryError ''OOM'')" by (simp add: oom_run_def)
  show ?thesis
    using evaluate_first_error [of "[((), 1, ())]" oom_run 0 "()" "LibraryError ''OOM''" "()" "[((), 2, ())]"] h1 h2
    by simp
qed

end
