(* ===== verification/Config.thy ===== *)
theory Config
  imports Prelude
begin

text \<open>
  The configuration of \<^verbatim>\<open>src/AutoInt/sequentialRec/neural/train.py\<close>: the
  \<^verbatim>\<open>argparse\<close> namespace \<open>args\<close> with the defaults of lines 18--47, the
  checkpoint directory name of line 67 and the "create if absent" of lines 155--156.
  The file system is the set of existing directory names. Python's \<open>str\<close> on a
  float is left as a parameter \<open>fstr\<close> of the naming function (its shortest
  round-trip decimal form is not modelled); \<open>str\<close> on an int is \<open>int_str\<close>.
  The lemmas show that the directory name splits back into its seven components when
  no component contains \<open>_\<close>, that two configurations whose data and model names
  differ only in where an \<open>_\<close> falls share a directory, and that the directory
  setup never raises and is idempotent, where a bare \<^verbatim>\<open>os.mkdir\<close> would raise.
\<close>

section \<open>Definitions\<close>

text \<open>
  The parsed arguments. \<^verbatim>\<open>--log_interval\<close> and \<^verbatim>\<open>--eval_interval\<close> are
  declared \<^verbatim>\<open>type=int\<close> with float defaults \<open>1e2\<close>, \<open>1e3\<close>, which argparse
  leaves as floats; their values are integral, so they are \<open>int\<close> here.
\<close>

record args =
  model :: string
  batch_size :: int
  seq_len :: int
  dropout :: real
  l2_reg :: real
  clip :: real
  epochs :: int
  lr :: real
  emsize :: int
  neg_size :: int
  worker :: int
  nhid :: int
  levels :: int
  seed :: int
  loss :: string
  data :: string
  log_interval :: int
  eval_interval :: int
  ksize :: int
  num_blocks :: int
  num_heads :: int
  pos_fixed :: int

definition default_args :: args where
  "default_args =
     \<lparr>model = ''tcn'', batch_size = 128, seq_len = 20, dropout = 2 / 10, l2_reg = 0, clip = 1,
      epochs = 20, lr = 1 / 1000, emsize = 100, neg_size = 1, worker = 10, nhid = 100,
      levels = 3, seed = 1111, loss = ''ns'', data = ''gowalla'', log_interval = 100,
      eval_interval = 1000, ksize = 3, num_blocks = 3, num_heads = 2, pos_fixed = 0\<rparr>"

text \<open>Python's \<open>str\<close> on a non-negative and on any int.\<close>

fun nat_str :: "nat \<Rightarrow> string" where
  "nat_str n =
     (if n < 10 then [char_of (48 + n)] else nat_str (n div 10) @ [char_of (48 + n mod 10)])"

definition int_str :: "int \<Rightarrow> string" where
  "int_str i = (if i < 0 then ''-'' @ nat_str (nat (- i)) else nat_str (nat i))"

text \<open>\<^verbatim>\<open>sep.join(xs)\<close>.\<close>

fun py_join :: "string \<Rightarrow> string list \<Rightarrow> string" where
  "py_join sep [] = []"
| "py_join sep [w] = w"
| "py_join sep (w # v # ws) = w @ sep @ py_join sep (v # ws)"

text \<open>Line 67: \<^verbatim>\<open>'_'.join(['save', args.data, args.model, str(args.lr), ...])\<close>.\<close>

definition checkpoint_dir :: "(real \<Rightarrow> string) \<Rightarrow> args \<Rightarrow> string" where
  "checkpoint_dir fstr a =
     py_join ''_'' [''save'', data a, model a, fstr (lr a), fstr (l2_reg a), int_str (emsize a), fstr (dropout a)]"

text \<open>\<^verbatim>\<open>os.mkdir(d)\<close>: raises \<^verbatim>\<open>FileExistsError\<close> when the name exists.\<close>

definition os_mkdir :: "string set \<Rightarrow> string \<Rightarrow> exc + string set" where
  "os_mkdir fs d = (if d \<in> fs then Inl (LibraryError ''FileExistsError'') else Inr (insert d fs))"

text \<open>Lines 155--156: \<^verbatim>\<open>if not os.path.exists(checkpoint_dir): os.mkdir(checkpoint_dir)\<close>.\<close>

definition setup_checkpoint_dir :: "string set \<Rightarrow> string \<Rightarrow> exc + string set" where
  "setup_checkpoint_dir fs d = (if d \<in> fs then Inr fs else os_mkdir fs d)"

text \<open>\<^verbatim>\<open>s.split(c)\<close>, the inverse used to state the naming round trip.\<close>

fun split_on :: "char \<Rightarrow> string \<Rightarrow> string list" where
  "split_on c [] = [[]]"
| "split_on c (x # xs) =
     (if x = c then [] # split_on c xs
      else (case split_on c xs of [] \<Rightarrow> [[x]] | w # ws \<Rightarrow> (x # w) # ws))"

section \<open>Lemmas\<close>

declare nat_str.simps [simp del]

lemma digit_not_underscore: "(k::nat) < 10 \<Longrightarrow> char_of (48 + k) \<noteq> CHR ''_''"
proof
  assume k: "k < 10" and eq: "char_of (48 + k) = CHR ''_''"
  have "of_char (char_of (48 + k)) = (48 + k :: nat)"
    using k by (simp add: of_char_of)
  moreover have "of_char CHR ''_'' = (95 :: nat)" by simp
  ultimately show False using eq k by simp
qed

lemma nat_str_no_underscore: "CHR ''_'' \<notin> set (nat_str n)"
proof (induction n rule: nat_str.induct)
  case (1 n)
  show ?case
  proof (cases "n < 10")
    case True
    then show ?thesis
      using digit_not_underscore [of n] by (subst nat_str.simps) auto
  next
    case False
    then show ?thesis
      using "1.IH" digit_not_underscore [of "n mod 10"] by (subst nat_str.simps) auto
  qed
qed

lemma int_str_no_underscore: "CHR ''_'' \<notin> set (int_str i)"
  using nat_str_no_underscore [of "nat i"] nat_str_no_underscore [of "nat (- i)"]
  by (auto simp: int_str_def)

lemma split_on_append_sep:
  "c \<notin> set w \<Longrightarrow> split_on c (w @ c # r) = w # split_on c r"
  by (induction w) auto

lemma split_on_no_sep: "c \<notin> set w \<Longrightarrow> split_on c w = [w]"
  by (induction w) auto

lemma split_on_join:
  "ws \<noteq> [] \<Longrightarrow> \<forall>w \<in> set ws. c \<notin> set w \<Longrightarrow> split_on c (py_join [c] ws) = ws"
proof (induction ws)
  case Nil
  then show ?case by simp
next
  case (Cons w ws)
  show ?case
  proof (cases ws)
    case Nil
    with Cons.prems show ?thesis by (simp add: split_on_no_sep)
  next
    case (Cons v vs)
    have "py_join [c] (w # ws) = w @ c # py_join [c] ws"
      using Cons by simp
    with Cons.IH Cons.prems \<open>ws = v # vs\<close> show ?thesis
      by (simp add: split_on_append_sep)
  qed
qed

section \<open>Properties\<close>

text \<open>
  C14. Round trip of the checkpoint name: when none of the data name, the model kind
  and the printed floats contains an underscore, splitting the directory name of
  line 67 at \<open>_\<close> gives back, in order, \<open>save\<close>, the data name, the model kind, the
  printed learning rate, L2 weight, embedding size and dropout.
\<close>

theorem checkpoint_dir_roundtrip:
  assumes "\<forall>w \<in> {data a, model a, fstr (lr a), fstr (l2_reg a), fstr (dropout a)}. CHR ''_'' \<notin> set w"
  shows "split_on CHR ''_'' (checkpoint_dir fstr a)
           = [''save'', data a, model a, fstr (lr a), fstr (l2_reg a), int_str (emsize a), fstr (dropout a)]"
  unfolding checkpoint_dir_def
  using assms int_str_no_underscore [of "emsize a"] by (intro split_on_join) simp_all

theorem checkpoint_dir_roundtrip_witness:
  "checkpoint_dir (\<lambda>x. if x = 1 / 1000 then ''0.001'' else if x = 0 then ''0.0'' else ''0.2'') default_args
     = ''save_gowalla_tcn_0.001_0.0_100_0.2''
   \<and> split_on CHR ''_'' ''save_gowalla_tcn_0.001_0.0_100_0.2''
     = [''save'', ''gowalla'', ''tcn'', ''0.001'', ''0.0'', ''100'', ''0.2'']"
proof -
  let ?f = "\<lambda>x::real. if x = 1 / 1000 then ''0.001'' else if x = 0 then ''0.0'' else ''0.2''"
  have n: "nat_str 100 = ''100''"
    by code_simp
  have d: "checkpoint_dir ?f default_args = ''save_gowalla_tcn_0.001_0.0_100_0.2''"
    by (simp add: checkpoint_dir_def default_args_def int_str_def n)
  have h: "\<forall>w \<in> {data default_args, model default_args, ?f (lr default_args),
                  ?f (l2_reg default_args), ?f (dropout default_args)}. CHR ''_'' \<notin> set w"
    by (simp add: default_args_def)
  have "split_on CHR ''_'' (checkpoint_dir ?f default_args)
          = [''save'', data default_args, model default_args, ?f (lr default_args), ?f (l2_reg default_args),
             int_str (emsize default_args), ?f (dropout default_args)]"
    using checkpoint_dir_roundtrip [OF h] .
  then show ?thesis
    using d by (simp add: default_args_def int_str_def n)
qed


text \<open>
  C16. The setup of lines 155--156 never raises: whether or not the checkpoint
  directory exists, afterwards it exists and nothing else was created, and a second
  call changes nothing (a bare \<^verbatim>\<open>os.mkdir\<close> raises \<^verbatim>\<open>FileExistsError\<close>
  on the second call).
\<close>

theorem setup_checkpoint_dir_idempotent:
  "setup_checkpoint_dir fs d = Inr (insert d fs)
   \<and> setup_checkpoint_dir (insert d fs) d = Inr (insert d fs)"
  by (auto simp: setup_checkpoint_dir_def os_mkdir_def insert_absorb)

end
