(* ===== verification/Controller.thy ===== *)
theory Controller
  imports Evaluation Config
begin

text \<open>
  The training controller, \<^verbatim>\<open>main()\<close> of
  \<^verbatim>\<open>src/AutoInt/sequentialRec/neural/train.py\<close> (lines 94--152), with the global
  \<^verbatim>\<open>lr\<close> of line 75. Its locals, the global \<open>lr\<close>, the session's variables,
  the sampler handle, the checkpoint file and standard output form the record
  \<open>train_state\<close>; \<open>status\<close> records whether the \<^verbatim>\<open>while True\<close> loop is still
  running, left by \<^verbatim>\<open>break\<close> (converged), or left by an exception.

  The components it calls are the interface \<open>ctrl_env\<close>: the sampler's
  \<^verbatim>\<open>next_batch\<close> and \<^verbatim>\<open>close\<close>, the optimiser step \<^verbatim>\<open>sess.run([train_op, loss])\<close>,
  the evaluation scorer \<^verbatim>\<open>sess.run([hit_at_k, ndcg_at_k, num_target])\<close> used by
  \<open>Evaluation.evaluate\<close>, and the prepared validation batches. Each may raise.

  One iteration of the loop body is \<open>train_iteration\<close>, a sequence of statements in
  the exception-state monad of \<open>Prelude\<close>, so the effects before a raise are kept.
  \<open>ctrl_step\<close> wraps it in the \<^verbatim>\<open>try\<close>/\<^verbatim>\<open>except Exception\<close> of lines 107--152.
  Wall-clock time (\<^verbatim>\<open>start_time\<close>, the ms/batch figure) is not modelled.
\<close>

section \<open>Definitions\<close>

text \<open>Lines printed on standard output.\<close>

datatype event =
    LogLine int real real   \<comment> \<open>line 120: step, lr, average loss\<close>
  | EvalLine int pyfloat pyfloat  \<comment> \<open>line 130: step, valid hit@20, valid ndcg@20\<close>
  | StopMsg                 \<comment> \<open>line 143\<close>
  | ErrorMsg exc            \<comment> \<open>line 148: \<^verbatim>\<open>print(str(e))\<close>\<close>
  | DoneMsg                 \<comment> \<open>line 152\<close>

datatype status = Running | Converged | Failed exc | Aborted exc

record ('p, 'q) train_state =
  lr :: real
  all_val_hit :: "pyfloat list"
  early_stop_cn :: int
  step_count :: int
  train_loss_l :: real
  params :: 'p
  sampler :: 'q
  ckpt :: "'p option"
  out :: "event list"
  status :: status
  exit_code :: "int option"

record ('p, 'b, 'q, 'u, 'x, 'y) ctrl_env =
  next_batch :: "'q \<Rightarrow> exc + ('b \<times> 'q)"
  close_sampler :: "'q \<Rightarrow> 'q"
  train_op :: "'p \<Rightarrow> 'b \<Rightarrow> real \<Rightarrow> real \<Rightarrow> exc + ('p \<times> real)"
  eval_op :: "'p \<Rightarrow> ('x, 'y) scorer"
  val_data :: "('u, 'x, 'y) eval_batch list"

type_synonym ('a, 'p, 'q) stmt = "('a, ('p, 'q) train_state) exn"

text \<open>The floor \<open>1e-6\<close> of line 137.\<close>

definition lr_min :: real where
  "lr_min = 1 / 1000000"

text \<open>Lines 136--137: \<^verbatim>\<open>lr /= 2.; lr = max(lr, 1e-6)\<close>.\<close>

definition lr_decay :: "real \<Rightarrow> real" where
  "lr_decay l = max (l / 2) lr_min"

text \<open>Lines 75 and 99--105: the session initialised to \<open>p0\<close>, the sampler \<open>q0\<close>.\<close>

definition init_state :: "args \<Rightarrow> 'p \<Rightarrow> 'q \<Rightarrow> ('p, 'q) train_state" where
  "init_state a p0 q0 =
     \<lparr>lr = args.lr a, all_val_hit = [Fin (-1)], early_stop_cn = 0, step_count = 0,
      train_loss_l = 0, params = p0, sampler = q0, ckpt = None, out = [],
      status = Running, exit_code = None\<rparr>"

text \<open>Line 109: \<^verbatim>\<open>cur_batch = train_sampler.next_batch()\<close>.\<close>

definition fetch_batch :: "('p, 'b, 'q, 'u, 'x, 'y) ctrl_env \<Rightarrow> ('b, 'p, 'q) stmt" where
  "fetch_batch env st =
     (case next_batch env (sampler st) of
        Inl e \<Rightarrow> Inl (e, st)
      | Inr (b, q) \<Rightarrow> Inr (b, st\<lparr>sampler := q\<rparr>))"

text \<open>
  Lines 110--116: one optimiser step fed with the batch, the current \<open>lr\<close> and
  \<^verbatim>\<open>args.dropout\<close>; the loss is accumulated and the step counted.
\<close>

definition train_on_batch ::
  "args \<Rightarrow> ('p, 'b, 'q, 'u, 'x, 'y) ctrl_env \<Rightarrow> 'b \<Rightarrow> (unit, 'p, 'q) stmt" where
  "train_on_batch a env b st =
     (case train_op env (params st) b (lr st) (args.dropout a) of
        Inl e \<Rightarrow> Inl (e, st)
      | Inr (p, train_loss) \<Rightarrow>
          Inr ((), st\<lparr>params := p, train_loss_l := train_loss_l st + train_loss,
                      step_count := step_count st + 1\<rparr>))"

text \<open>Lines 117--124: every \<^verbatim>\<open>log_interval\<close> steps, print the average loss and reset the sum.\<close>

definition log_check :: "args \<Rightarrow> (unit, 'p, 'q) stmt" where
  "log_check a st =
     (case py_mod (step_count st) (log_interval a) of
        Inl e \<Rightarrow> Inl (e, st)
      | Inr r \<Rightarrow>
          if r = 0 then
            Inr ((), st\<lparr>out := out st @
                          [LogLine (step_count st) (lr st) (train_loss_l st / of_int (log_interval a))],
                        train_loss_l := 0\<rparr>)
          else Inr ((), st))"

text \<open>
  Lines 135--145: compare the last two recorded Hit@K values; halve the rate and count
  a non-improvement, or reset the count and save the checkpoint; stop at count 3.
  The comparison is Python's \<open><=\<close> on floats, false when either value is NaN.
  The result is whether the loop breaks.
\<close>

definition decide_eval :: "(bool, 'p, 'q) stmt" where
  "decide_eval st =
     (case py_index (all_val_hit st) (-1) of
        Inl e \<Rightarrow> Inl (e, st)
      | Inr cur \<Rightarrow>
          (case py_index (all_val_hit st) (-2) of
             Inl e \<Rightarrow> Inl (e, st)
           | Inr prev \<Rightarrow>
               (let st1 = (if cur \<le> prev
                           then st\<lparr>lr := lr_decay (lr st), early_stop_cn := early_stop_cn st + 1\<rparr>
                           else st\<lparr>early_stop_cn := 0, ckpt := Some (params st)\<rparr>)
                in if early_stop_cn st1 = 3 then Inr (True, st1\<lparr>out := out st1 @ [StopMsg]\<rparr>)
                   else Inr (False, st1))))"

text \<open>Lines 126--146: every \<^verbatim>\<open>eval_interval\<close> steps, evaluate on the validation batches and decide.\<close>

definition eval_check :: "args \<Rightarrow> ('p, 'b, 'q, 'u, 'x, 'y) ctrl_env \<Rightarrow> (bool, 'p, 'q) stmt" where
  "eval_check a env st =
     (case py_mod (step_count st) (eval_interval a) of
        Inl e \<Rightarrow> Inl (e, st)
      | Inr r \<Rightarrow>
          if r \<noteq> 0 then Inr (False, st)
          else
            (case evaluate (eval_op env (params st)) (val_data env) of
               Inl e \<Rightarrow> Inl (e, st)
             | Inr (val_hit, val_ndcg) \<Rightarrow>
                 decide_eval (st\<lparr>all_val_hit := all_val_hit st @ [val_hit],
                                 out := out st @ [EvalLine (step_count st) val_hit val_ndcg]\<rparr>)))"

text \<open>Lines 109--146: one iteration of the \<^verbatim>\<open>while True\<close> body.\<close>

definition train_iteration :: "args \<Rightarrow> ('p, 'b, 'q, 'u, 'x, 'y) ctrl_env \<Rightarrow> (bool, 'p, 'q) stmt" where
  "train_iteration a env =
     bindE (fetch_batch env) (\<lambda>b.
     bindE (train_on_batch a env b) (\<lambda>_.
     bindE (log_check a) (\<lambda>_.
     eval_check a env)))"

text \<open>Lines 151--152: after \<^verbatim>\<open>break\<close>, close the sampler and print \<^verbatim>\<open>Done\<close>; \<^verbatim>\<open>main\<close> returns.\<close>

definition finish :: "('p, 'b, 'q, 'u, 'x, 'y) ctrl_env \<Rightarrow> ('p, 'q) train_state \<Rightarrow> ('p, 'q) train_state" where
  "finish env st =
     st\<lparr>sampler := close_sampler env (sampler st), out := out st @ [DoneMsg],
        status := Converged, exit_code := Some 0\<rparr>"

text \<open>
  Lines 147--150: \<^verbatim>\<open>except Exception\<close> prints the message, closes the sampler and
  calls \<^verbatim>\<open>exit(1)\<close>. An exception that is not an \<open>Exception\<close> escapes the clause:
  the process dies without closing the sampler.
\<close>

definition on_exception ::
  "('p, 'b, 'q, 'u, 'x, 'y) ctrl_env \<Rightarrow> exc \<Rightarrow> ('p, 'q) train_state \<Rightarrow> ('p, 'q) train_state" where
  "on_exception env e st =
     (if is_Exception e
      then st\<lparr>out := out st @ [ErrorMsg e], sampler := close_sampler env (sampler st),
              status := Failed e, exit_code := Some 1\<rparr>
      else st\<lparr>status := Aborted e\<rparr>)"

text \<open>One turn of the loop inside its \<^verbatim>\<open>try\<close>; a stopped controller does not move.\<close>

definition ctrl_step ::
  "args \<Rightarrow> ('p, 'b, 'q, 'u, 'x, 'y) ctrl_env \<Rightarrow> ('p, 'q) train_state \<Rightarrow> ('p, 'q) train_state" where
  "ctrl_step a env st =
     (if status st \<noteq> Running then st
      else
        (case train_iteration a env st of
           Inr (brk, st') \<Rightarrow> if brk then finish env st' else st'
         | Inl (e, st') \<Rightarrow> on_exception env e st'))"

text \<open>\<open>n\<close> turns of the loop (fuel).\<close>

fun run :: "nat \<Rightarrow> args \<Rightarrow> ('p, 'b, 'q, 'u, 'x, 'y) ctrl_env \<Rightarrow> ('p, 'q) train_state \<Rightarrow> ('p, 'q) train_state" where
  "run 0 a env st = st"
| "run (Suc n) a env st = run n a env (ctrl_step a env st)"

text \<open>The loop until it stops; \<open>None\<close> when it never does.\<close>

partial_function (option) main_loop ::
  "args \<Rightarrow> ('p, 'b, 'q, 'u, 'x, 'y) ctrl_env \<Rightarrow> ('p, 'q) train_state \<Rightarrow> ('p, 'q) train_state option" where
  "main_loop a env st = (if status st = Running then main_loop a env (ctrl_step a env st) else Some st)"

definition main :: "args \<Rightarrow> ('p, 'b, 'q, 'u, 'x, 'y) ctrl_env \<Rightarrow> 'p \<Rightarrow> 'q \<Rightarrow> ('p, 'q) train_state option" where
  "main a env p0 q0 = main_loop a env (init_state a p0 q0)"

text \<open>The states the controller reaches from its start.\<close>

inductive reachable ::
  "args \<Rightarrow> ('p, 'b, 'q, 'u, 'x, 'y) ctrl_env \<Rightarrow> 'p \<Rightarrow> 'q \<Rightarrow> ('p, 'q) train_state \<Rightarrow> bool"
  for a env p0 q0 where
  start: "reachable a env p0 q0 (init_state a p0 q0)"
| step: "reachable a env p0 q0 st \<Longrightarrow> reachable a env p0 q0 (ctrl_step a env st)"

section \<open>Abstract specification of the evaluation decisions\<close>

text \<open>
  Read on the history of recorded Hit@K values, newest first: the number of
  non-improving comparisons at its end (\<open>nonimp_run\<close>), all of them (\<open>nonimp_count\<close>),
  and the learning rate after \<open>k\<close> decays.
\<close>

fun nonimp_run :: "pyfloat list \<Rightarrow> nat" where
  "nonimp_run (b # a # rest) = (if b \<le> a then Suc (nonimp_run (a # rest)) else 0)"
| "nonimp_run _ = 0"

fun nonimp_count :: "pyfloat list \<Rightarrow> nat" where
  "nonimp_count (b # a # rest) = (if b \<le> a then 1 else 0) + nonimp_count (a # rest)"
| "nonimp_count _ = 0"

definition lr_after :: "real \<Rightarrow> nat \<Rightarrow> real" where
  "lr_after l0 k = (lr_decay ^^ k) l0"


fun improved :: "pyfloat list \<Rightarrow> bool" where
  "improved (b # a # rest) = (\<not> b \<le> a \<or> improved (a # rest))"
| "improved _ = False"

text \<open>
  The decision state \<open>(lr, all_val_hit, early_stop_cn, checkpoint saved)\<close> and the
  effect of one evaluation with result \<open>v\<close> on it (lines 128, 135--141).
\<close>

type_synonym dstate = "real \<times> pyfloat list \<times> int \<times> bool"

definition dproj :: "('p, 'q) train_state \<Rightarrow> dstate" where
  "dproj st = (lr st, all_val_hit st, early_stop_cn st, ckpt st \<noteq> None)"

definition eval_decision :: "dstate \<Rightarrow> pyfloat \<Rightarrow> dstate" where
  "eval_decision d v =
     (case d of (l, hs, c, saved) \<Rightarrow>
        if v \<le> last hs then (lr_decay l, hs @ [v], c + 1, saved) else (l, hs @ [v], 0, True))"

text \<open>The invariant of the decision state.\<close>

definition ctrl_inv :: "args \<Rightarrow> ('p, 'q) train_state \<Rightarrow> bool" where
  "ctrl_inv a st \<longleftrightarrow>
     all_val_hit st \<noteq> [] \<and>
     early_stop_cn st = int (nonimp_run (rev (all_val_hit st))) \<and>
     nonimp_run (rev (all_val_hit st)) \<le> 3 \<and>
     (status st = Running \<longrightarrow> nonimp_run (rev (all_val_hit st)) < 3) \<and>
     (status st = Converged \<longleftrightarrow> nonimp_run (rev (all_val_hit st)) = 3) \<and>
     lr st = lr_after (args.lr a) (nonimp_count (rev (all_val_hit st))) \<and>
     (ckpt st \<noteq> None \<longleftrightarrow> improved (rev (all_val_hit st)))"

text \<open>What each way of leaving the loop leaves behind.\<close>

definition exit_ok :: "('p, 'b, 'q, 'u, 'x, 'y) ctrl_env \<Rightarrow> ('p, 'q) train_state \<Rightarrow> bool" where
  "exit_ok env st \<longleftrightarrow>
     (status st = Running \<longrightarrow> exit_code st = None) \<and>
     (status st = Converged \<longrightarrow>
        exit_code st = Some 0 \<and> (\<exists>xs. out st = xs @ [StopMsg, DoneMsg])
        \<and> (\<exists>q. sampler st = close_sampler env q)) \<and>
     (\<forall>e. status st = Failed e \<longrightarrow>
        is_Exception e \<and> exit_code st = Some 1 \<and> (\<exists>xs. out st = xs @ [ErrorMsg e])
        \<and> (\<exists>q. sampler st = close_sampler env q)) \<and>
     (\<forall>e. status st = Aborted e \<longrightarrow> \<not> is_Exception e \<and> exit_code st = None)"

text \<open>The three outcomes of a statement of the loop body, seen on the decision state.\<close>

definition body_outcome :: "('p, 'q) train_state \<Rightarrow> (exc \<times> ('p, 'q) train_state) + (bool \<times> ('p, 'q) train_state) \<Rightarrow> bool" where
  "body_outcome st r \<longleftrightarrow>
     (\<exists>e st'. r = Inl (e, st') \<and> dproj st' = dproj st \<and> status st' = status st \<and> exit_code st' = exit_code st)
   \<or> (\<exists>st'. r = Inr (False, st') \<and> dproj st' = dproj st \<and> status st' = status st \<and> exit_code st' = exit_code st)
   \<or> (\<exists>v brk st'. r = Inr (brk, st') \<and> dproj st' = eval_decision (dproj st) v
        \<and> brk = (early_stop_cn st' = 3) \<and> (brk \<longrightarrow> (\<exists>xs. out st' = xs @ [StopMsg]))
        \<and> status st' = status st \<and> exit_code st' = exit_code st)"

section \<open>Example environment\<close>

text \<open>
  A small environment used by the examples: the parameters count the optimiser steps,
  the sampler handle is a flag that \<open>close\<close> sets, each batch has loss \<open>1\<close>, and the
  validation Hit@K after \<open>p\<close> steps is \<open>hits p\<close> on one target. \<open>toy_args\<close> logs and
  evaluates after every step.
\<close>

definition toy_env :: "(nat \<Rightarrow> real) \<Rightarrow> (nat, unit, bool, unit, unit, unit) ctrl_env" where
  "toy_env hits =
     \<lparr>next_batch = (\<lambda>q. Inr ((), q)), close_sampler = (\<lambda>q. True),
      train_op = (\<lambda>p b l d. Inr (Suc p, 1)), eval_op = (\<lambda>p x y d. Inr (hits p, 0, 1)),
      val_data = [((), (), ())]\<rparr>"

definition toy_args :: args where
  "toy_args = default_args\<lparr>log_interval := 1, eval_interval := 1\<rparr>"

text \<open>Validation results that alternate between two values, and its invariant.\<close>

definition ff_hits :: "nat \<Rightarrow> real" where
  "ff_hits p = (if odd p then 1 / 10 else 1 / 5)"

definition ff_inv :: "(nat, bool) train_state \<Rightarrow> bool" where
  "ff_inv st \<longleftrightarrow> status st = Running \<and> step_count st = int (params st) \<and> all_val_hit st \<noteq> []
     \<and> last (all_val_hit st) = Fin (if params st = 0 then -1 else ff_hits (params st))
     \<and> 0 \<le> early_stop_cn st \<and> early_stop_cn st \<le> 1 \<and> (even (params st) \<longrightarrow> early_stop_cn st = 0)"

text \<open>An environment whose sampler is interrupted by Ctrl-C.\<close>

definition kbi_env :: "(nat, unit, bool, unit, unit, unit) ctrl_env" where
  "kbi_env = (toy_env (\<lambda>_. 0))\<lparr>next_batch := (\<lambda>q. Inl KeyboardInterrupt)\<rparr>"

section \<open>Lemmas\<close>

lemmas run_simps = ctrl_step_def train_iteration_def fetch_batch_def train_on_batch_def
  log_check_def eval_check_def decide_eval_def evaluate_def finish_def on_exception_def
  lr_decay_def lr_min_def

lemmas toy_simps = toy_env_def toy_args_def default_args_def init_state_def

lemma fetch_batch_frame:
  "fetch_batch env st = Inr (b, st') \<Longrightarrow>
     dproj st' = dproj st \<and> status st' = status st \<and> exit_code st' = exit_code st"
  "fetch_batch env st = Inl (e, st') \<Longrightarrow> st' = st"
  by (auto simp: fetch_batch_def dproj_def split: sum.splits prod.splits)

lemma train_on_batch_frame:
  "train_on_batch a env b st = Inr (x, st') \<Longrightarrow>
     dproj st' = dproj st \<and> status st' = status st \<and> exit_code st' = exit_code st"
  "train_on_batch a env b st = Inl (e, st') \<Longrightarrow> st' = st"
  by (auto simp: train_on_batch_def dproj_def split: sum.splits prod.splits)

lemma log_check_frame:
  "log_check a st = Inr (x, st') \<Longrightarrow>
     dproj st' = dproj st \<and> status st' = status st \<and> exit_code st' = exit_code st"
  "log_check a st = Inl (e, st') \<Longrightarrow> st' = st"
  by (auto simp: log_check_def dproj_def split: sum.splits if_splits)

lemma decide_eval_appended:
  assumes "all_val_hit st = hs @ [v]" and "hs \<noteq> []"
  shows "\<exists>brk st'. decide_eval st = Inr (brk, st')
          \<and> dproj st' = eval_decision (lr st, hs, early_stop_cn st, ckpt st \<noteq> None) v
          \<and> brk = (early_stop_cn st' = 3) \<and> (brk \<longrightarrow> (\<exists>xs. out st' = xs @ [StopMsg]))
          \<and> status st' = status st \<and> exit_code st' = exit_code st"
  using assms by (auto simp: decide_eval_def eval_decision_def dproj_def Let_def)

lemma body_outcome_trans:
  "dproj st' = dproj st \<Longrightarrow> status st' = status st \<Longrightarrow> exit_code st' = exit_code st
   \<Longrightarrow> body_outcome st' r \<Longrightarrow> body_outcome st r"
  unfolding body_outcome_def by simp

lemma eval_check_outcome:
  assumes "all_val_hit st \<noteq> []"
  shows "body_outcome st (eval_check a env st)"
proof (cases "py_mod (step_count st) (eval_interval a)")
  case (Inl e)
  then show ?thesis by (auto simp: eval_check_def body_outcome_def)
next
  case (Inr m)
  show ?thesis
  proof (cases "m = 0")
    case False
    then show ?thesis using Inr by (auto simp: eval_check_def body_outcome_def)
  next
    case True
    show ?thesis
    proof (cases "evaluate (eval_op env (params st)) (val_data env)")
      case (Inl e)
      then show ?thesis using Inr True by (auto simp: eval_check_def body_outcome_def)
    next
      case (Inr vv)
      obtain vh vn where vv: "vv = (vh, vn)" by (cases vv)
      let ?st = "st\<lparr>all_val_hit := all_val_hit st @ [vh],
                    out := out st @ [EvalLine (step_count st) vh vn]\<rparr>"
      have r: "eval_check a env st = decide_eval ?st"
        using \<open>py_mod _ _ = Inr m\<close> True Inr vv by (simp add: eval_check_def)
      from decide_eval_appended [of ?st "all_val_hit st" vh] assms
      show ?thesis unfolding r body_outcome_def by (auto simp: dproj_def)
    qed
  qed
qed

lemma train_iteration_outcome:
  assumes "all_val_hit st \<noteq> []"
  shows "body_outcome st (train_iteration a env st)"
proof (cases "fetch_batch env st")
  case (Inl es)
  then show ?thesis using fetch_batch_frame(2) [of env st]
    by (cases es) (auto simp: train_iteration_def body_outcome_def)
next
  case (Inr bs1)
  obtain b s1 where bs1: "bs1 = (b, s1)" by (cases bs1)
  with Inr have f1: "fetch_batch env st = Inr (b, s1)" by simp
  then have s1: "dproj s1 = dproj st \<and> status s1 = status st \<and> exit_code s1 = exit_code st"
    by (rule fetch_batch_frame(1))
  show ?thesis
  proof (cases "train_on_batch a env b s1")
    case (Inl es)
    then show ?thesis using f1 s1 train_on_batch_frame(2) [of a env b s1]
      by (cases es) (auto simp: train_iteration_def body_outcome_def)
  next
    case Inr2: (Inr xs2)
    obtain x s2 where xs2: "xs2 = (x, s2)" by (cases xs2)
    with Inr2 have f2: "train_on_batch a env b s1 = Inr (x, s2)" by simp
    then have "dproj s2 = dproj s1 \<and> status s2 = status s1 \<and> exit_code s2 = exit_code s1"
      by (rule train_on_batch_frame(1))
    with s1 have s2: "dproj s2 = dproj st \<and> status s2 = status st \<and> exit_code s2 = exit_code st"
      by simp
    show ?thesis
    proof (cases "log_check a s2")
      case (Inl es)
      then show ?thesis using f1 f2 s2 log_check_frame(2) [of a s2]
        by (cases es) (auto simp: train_iteration_def body_outcome_def)
    next
      case Inr3: (Inr xs3)
      obtain y s3 where xs3: "xs3 = (y, s3)" by (cases xs3)
      with Inr3 have f3: "log_check a s2 = Inr (y, s3)" by simp
      then have "dproj s3 = dproj s2 \<and> status s3 = status s2 \<and> exit_code s3 = exit_code s2"
        by (rule log_check_frame(1))
      with s2 have s3: "dproj s3 = dproj st \<and> status s3 = status st \<and> exit_code s3 = exit_code st"
        by simp
      have it: "train_iteration a env st = eval_check a env s3"
        using f1 f2 f3 by (simp add: train_iteration_def)
      have "all_val_hit s3 \<noteq> []" using s3 assms by (simp add: dproj_def)
      then have "body_outcome s3 (eval_check a env s3)" by (rule eval_check_outcome)
      then show ?thesis unfolding it using s3 body_outcome_trans by blast
    qed
  qed
qed

lemma nonimp_run_snoc:
  "hs \<noteq> [] \<Longrightarrow> nonimp_run (v # rev hs) = (if v \<le> last hs then Suc (nonimp_run (rev hs)) else 0)"
  by (cases "rev hs") (auto simp: last_rev [symmetric] simp del: last_rev)

lemma nonimp_count_snoc:
  "hs \<noteq> [] \<Longrightarrow> nonimp_count (v # rev hs) = (if v \<le> last hs then 1 else 0) + nonimp_count (rev hs)"
  by (cases "rev hs") (auto simp: last_rev [symmetric] simp del: last_rev)

lemma improved_snoc:
  "hs \<noteq> [] \<Longrightarrow> improved (v # rev hs) = (\<not> v \<le> last hs \<or> improved (rev hs))"
  by (cases "rev hs") (auto simp: last_rev [symmetric] simp del: last_rev)

lemma lr_after_Suc: "lr_after l0 (Suc k) = lr_decay (lr_after l0 k)"
  by (simp add: lr_after_def)

lemma lr_after_closed:
  "lr_after l0 k = (if k = 0 then l0 else max (l0 / 2 ^ k) lr_min)"
proof (induction k)
  case 0
  then show ?case by (simp add: lr_after_def)
next
  case (Suc k)
  have m: "max (x / 2) lr_min = max (max x lr_min / 2) lr_min" for x :: real
    by (auto simp: max_def lr_min_def)
  from Suc show ?case
    by (cases "k = 0") (simp_all add: lr_after_Suc lr_decay_def m [symmetric] field_simps)
qed

lemma ctrl_inv_same:
  "ctrl_inv a st \<Longrightarrow> dproj st' = dproj st \<Longrightarrow> status st = Running \<Longrightarrow> status st' \<noteq> Converged
   \<Longrightarrow> ctrl_inv a st'"
  by (auto simp: ctrl_inv_def dproj_def)

lemma ctrl_inv_decision:
  assumes "ctrl_inv a st" and "status st = Running"
    and "dproj st' = eval_decision (dproj st) v"
    and "status st' = Converged \<longleftrightarrow> early_stop_cn st' = 3"
    and "status st' = Running \<Longrightarrow> early_stop_cn st' \<noteq> 3"
  shows "ctrl_inv a st'"
proof -
  let ?hs = "all_val_hit st"
  have ne: "?hs \<noteq> []" and c: "early_stop_cn st = int (nonimp_run (rev ?hs))"
    and lt: "nonimp_run (rev ?hs) < 3" and l: "lr st = lr_after (args.lr a) (nonimp_count (rev ?hs))"
    and k: "ckpt st \<noteq> None \<longleftrightarrow> improved (rev ?hs)"
    using assms(1,2) by (auto simp: ctrl_inv_def)
  show ?thesis
  proof (cases "v \<le> last ?hs")
    case True
    with assms(3) have "lr st' = lr_decay (lr st)" "all_val_hit st' = ?hs @ [v]"
      "early_stop_cn st' = early_stop_cn st + 1" "(ckpt st' \<noteq> None) = (ckpt st \<noteq> None)"
      by (auto simp: dproj_def eval_decision_def)
    with True ne c lt l k assms(4,5) show ?thesis
      by (auto simp: ctrl_inv_def nonimp_run_snoc nonimp_count_snoc improved_snoc lr_after_Suc)
  next
    case False
    with assms(3) have "lr st' = lr st" "all_val_hit st' = ?hs @ [v]" "early_stop_cn st' = 0"
      "ckpt st' \<noteq> None"
      by (auto simp: dproj_def eval_decision_def)
    with False ne l assms(4) show ?thesis
      by (auto simp: ctrl_inv_def nonimp_run_snoc nonimp_count_snoc improved_snoc)
  qed
qed

lemma finish_fields [simp]:
  "dproj (finish env st) = dproj st" "status (finish env st) = Converged"
  "exit_code (finish env st) = Some 0" "early_stop_cn (finish env st) = early_stop_cn st"
  "out (finish env st) = out st @ [DoneMsg]" "sampler (finish env st) = close_sampler env (sampler st)"
  by (simp_all add: finish_def dproj_def)

lemma on_exception_fields [simp]:
  "dproj (on_exception env e st) = dproj st"
  "status (on_exception env e st) = (if is_Exception e then Failed e else Aborted e)"
  by (simp_all add: on_exception_def dproj_def)

lemma ctrl_step_running:
  assumes "status st = Running" and "all_val_hit st \<noteq> []"
  obtains (raised) e st' where "train_iteration a env st = Inl (e, st')" "dproj st' = dproj st"
      "status st' = Running" "exit_code st' = exit_code st" "ctrl_step a env st = on_exception env e st'"
  | (cont) st' where "train_iteration a env st = Inr (False, st')" "dproj st' = dproj st"
      "status st' = Running" "exit_code st' = exit_code st" "ctrl_step a env st = st'"
  | (eval) v st' where "train_iteration a env st = Inr (early_stop_cn st' = 3, st')"
      "dproj st' = eval_decision (dproj st) v" "status st' = Running" "exit_code st' = exit_code st"
      "early_stop_cn st' = 3 \<Longrightarrow> \<exists>xs. out st' = xs @ [StopMsg]"
      "ctrl_step a env st = (if early_stop_cn st' = 3 then finish env st' else st')"
  using train_iteration_outcome [OF assms(2), of a env] assms(1)
  unfolding body_outcome_def ctrl_step_def by auto

lemma ctrl_step_inv:
  assumes "ctrl_inv a st"
  shows "ctrl_inv a (ctrl_step a env st)"
proof (cases "status st = Running")
  case False
  then show ?thesis using assms by (simp add: ctrl_step_def)
next
  case True
  have ne: "all_val_hit st \<noteq> []" using assms by (simp add: ctrl_inv_def)
  from True ne show ?thesis
  proof (cases rule: ctrl_step_running [of st a env])
    case (raised e st')
    have "ctrl_inv a (on_exception env e st')"
      by (rule ctrl_inv_same [OF assms _ True]) (simp_all add: raised)
    then show ?thesis using raised by simp
  next
    case (cont st')
    have "ctrl_inv a st'"
      by (rule ctrl_inv_same [OF assms _ True]) (simp_all add: cont)
    then show ?thesis using cont by simp
  next
    case (eval v st')
    show ?thesis
    proof (cases "early_stop_cn st' = 3")
      case True
      then show ?thesis using eval
        by (auto intro: ctrl_inv_decision [OF assms \<open>status st = Running\<close>])
    next
      case False
      then show ?thesis using eval
        by (auto intro: ctrl_inv_decision [OF assms \<open>status st = Running\<close>])
    qed
  qed
qed

lemma exit_ok_step:
  assumes "exit_ok env st" and "ctrl_inv a st"
  shows "exit_ok env (ctrl_step a env st)"
proof (cases "status st = Running")
  case False
  then show ?thesis using assms by (simp add: ctrl_step_def)
next
  case True
  have ne: "all_val_hit st \<noteq> []" using assms by (simp add: ctrl_inv_def)
  have none: "exit_code st = None" using assms(1) True by (simp add: exit_ok_def)
  from True ne show ?thesis
  proof (cases rule: ctrl_step_running [of st a env])
    case (raised e st')
    show ?thesis
    proof (cases "is_Exception e")
      case True
      then have "exit_ok env (on_exception env e st')"
        unfolding exit_ok_def on_exception_def by auto
      then show ?thesis using raised by simp
    next
      case False
      then have "exit_ok env (on_exception env e st')"
        using raised none unfolding exit_ok_def on_exception_def by auto
      then show ?thesis using raised by simp
    qed
  next
    case (cont st')
    then show ?thesis using none by (simp add: exit_ok_def)
  next
    case (eval v st')
    show ?thesis
    proof (cases "early_stop_cn st' = 3")
      case True
      then obtain xs where xs: "out st' = xs @ [StopMsg]" using eval(5) by blast
      have "exit_ok env (finish env st')"
        unfolding exit_ok_def using xs by auto
      then show ?thesis using eval(6) True by simp
    next
      case False
      then show ?thesis using eval none by (simp add: exit_ok_def)
    qed
  qed
qed

lemma ctrl_inv_init: "ctrl_inv a (init_state a p0 q0)"
  by (simp add: ctrl_inv_def init_state_def lr_after_def)

lemma exit_ok_init: "exit_ok env (init_state a p0 q0)"
  by (simp add: exit_ok_def init_state_def)

lemma reachable_inv: "reachable a env p0 q0 st \<Longrightarrow> ctrl_inv a st \<and> exit_ok env st"
  by (induction rule: reachable.induct)
     (simp_all add: ctrl_inv_init exit_ok_init ctrl_step_inv exit_ok_step)

lemma reachable_run: "reachable a env p0 q0 st \<Longrightarrow> reachable a env p0 q0 (run n a env st)"
  by (induction n arbitrary: st) (simp_all add: reachable.step)

lemma main_loop_run:
  assumes "main_loop a env st = Some r"
  shows "\<exists>n. run n a env st = r \<and> status r \<noteq> Running"
proof (rule main_loop.raw_induct [where P = "\<lambda>a env st r. \<exists>n. run n a env st = r \<and> status r \<noteq> Running", OF _ assms])
  fix f a env st r
  assume IH: "\<And>a env st r. f a env st = Some r \<Longrightarrow> \<exists>n. run n a env st = r \<and> status r \<noteq> Running"
    and eq: "(if status st = Running then f a env (ctrl_step a env st) else Some st) = Some r"
  show "\<exists>n. run n a env st = r \<and> status r \<noteq> Running"
  proof (cases "status st = Running")
    case True
    with eq have "f a env (ctrl_step a env st) = Some r" by simp
    then obtain n where "run n a env (ctrl_step a env st) = r" "status r \<noteq> Running"
      using IH by blast
    then show ?thesis by (intro exI [of _ "Suc n"]) simp
  next
    case False
    with eq show ?thesis by (intro exI [of _ 0]) auto
  qed
qed

lemma ff_step: "ff_inv st \<Longrightarrow> ff_inv (ctrl_step toy_args (toy_env ff_hits) st)"
  by (auto simp: ff_inv_def run_simps toy_simps ff_hits_def Let_def)

lemma ff_run: "ff_inv st \<Longrightarrow> ff_inv (run n toy_args (toy_env ff_hits) st)"
  by (induction n arbitrary: st) (simp_all add: ff_step)

section \<open>Properties\<close>

text \<open>
  C1. Early stopping: in every reachable state the controller has converged exactly
  when the last three recorded validation comparisons were non-improving, and while it
  runs its early-stop counter is below 3.
\<close>

theorem early_stop_converged:
  assumes "reachable a env p0 q0 st"
  shows "(status st = Converged \<longleftrightarrow> nonimp_run (rev (all_val_hit st)) = 3)
         \<and> (status st = Running \<longrightarrow> early_stop_cn st < 3)"
  using reachable_inv [OF assms] by (auto simp: ctrl_inv_def)

theorem early_stop_converged_witness:
  "status (run 4 toy_args (toy_env (\<lambda>_. 1/10)) (init_state toy_args 0 False)) = Converged
   \<and> nonimp_run (rev (all_val_hit (run 4 toy_args (toy_env (\<lambda>_. 1/10)) (init_state toy_args 0 False)))) = 3"
proof -
  have r: "reachable toy_args (toy_env (\<lambda>_. 1/10)) 0 False
             (run 4 toy_args (toy_env (\<lambda>_. 1/10)) (init_state toy_args 0 False))"
    by (rule reachable_run [OF reachable.start])
  have "status (run 4 toy_args (toy_env (\<lambda>_. 1/10)) (init_state toy_args 0 False)) = Converged"
    by (simp add: run_simps toy_simps py_index_def numeral_eq_Suc Let_def)
  then show ?thesis using early_stop_converged [OF r] by simp
qed

text \<open>
  C2. The early-stop counter of lines 138/140 always equals the number of consecutive
  non-improving comparisons at the end of the recorded Hit@K history.
\<close>

theorem early_stop_counter:
  assumes "reachable a env p0 q0 st"
  shows "early_stop_cn st = int (nonimp_run (rev (all_val_hit st)))"
  using reachable_inv [OF assms] by (simp add: ctrl_inv_def)

theorem early_stop_counter_witness:
  "early_stop_cn (run 3 toy_args (toy_env (\<lambda>_. 1/10)) (init_state toy_args 0 False))
     = int (nonimp_run (rev (all_val_hit (run 3 toy_args (toy_env (\<lambda>_. 1/10)) (init_state toy_args 0 False)))))"
  by (rule early_stop_counter [OF reachable_run [OF reachable.start]])

text \<open>
  C3. Refinement of the learning-rate schedule: in every reachable state the global
  \<open>lr\<close> is the initial rate decayed (halved, floored at \<open>1e-6\<close>) once per
  non-improving evaluation recorded so far.
\<close>

theorem lr_refinement:
  assumes "reachable a env p0 q0 st"
  shows "lr st = lr_after (args.lr a) (nonimp_count (rev (all_val_hit st)))"
  using reachable_inv [OF assms] by (simp add: ctrl_inv_def)

theorem lr_refinement_witness:
  "lr (run 3 toy_args (toy_env (\<lambda>_. 1/10)) (init_state toy_args 0 False))
     = lr_after (args.lr toy_args) (nonimp_count (rev (all_val_hit (run 3 toy_args (toy_env (\<lambda>_. 1/10)) (init_state toy_args 0 False)))))"
  by (rule lr_refinement [OF reachable_run [OF reachable.start]])

text \<open>
  C4. Closed form of the learning-rate schedule (lines 136--137): in every reachable
  state, after \<open>k\<close> non-improving evaluations the rate is the configured \<^verbatim>\<open>--lr\<close>
  when \<open>k = 0\<close> and otherwise \<open>max(lr / 2^k, 1e-6)\<close>; in particular a configured
  rate below \<open>1e-6\<close> is raised to \<open>1e-6\<close> by the first "decay".
\<close>

theorem lr_closed_form:
  assumes "reachable a env p0 q0 st"
  shows "lr st = (if nonimp_count (rev (all_val_hit st)) = 0 then args.lr a
                  else max (args.lr a / 2 ^ nonimp_count (rev (all_val_hit st))) lr_min)"
  using reachable_inv [OF assms] by (simp add: ctrl_inv_def lr_after_closed)

theorem lr_closed_form_witness:
  "lr (run 4 toy_args (toy_env (\<lambda>_. 1/10)) (init_state toy_args 0 False)) = 1 / 8000
   \<and> nonimp_count (rev (all_val_hit (run 4 toy_args (toy_env (\<lambda>_. 1/10)) (init_state toy_args 0 False)))) = 3
   \<and> max ((1 / 1000) / 2 ^ 3) lr_min = (1 / 8000 :: real)"
proof -
  let ?st = "run 4 toy_args (toy_env (\<lambda>_. 1/10)) (init_state toy_args 0 False)"
  have r: "reachable toy_args (toy_env (\<lambda>_. 1/10)) 0 False ?st" by (rule reachable_run [OF reachable.start])
  have h: "all_val_hit ?st = [Fin (-1), Fin (1/10), Fin (1/10), Fin (1/10), Fin (1/10)]"
    by (simp add: run_simps toy_simps py_index_def numeral_eq_Suc Let_def)
  have a: "args.lr toy_args = 1 / 1000" by (simp add: toy_args_def default_args_def)
  have c: "nonimp_count (rev (all_val_hit ?st)) = 3" by (simp add: h)
  show ?thesis using lr_closed_form [OF r] a c by (simp add: lr_min_def)
qed

text \<open>
  C5. A checkpoint exists exactly when some evaluation improved on its predecessor:
  the save of line 141 happens on improvement only.
\<close>

theorem ckpt_saved_iff_improved:
  assumes "reachable a env p0 q0 st"
  shows "ckpt st \<noteq> None \<longleftrightarrow> improved (rev (all_val_hit st))"
  using reachable_inv [OF assms] by (simp add: ctrl_inv_def)

theorem ckpt_saved_iff_improved_witness:
  "ckpt (run 1 toy_args (toy_env (\<lambda>_. 1/10)) (init_state toy_args 0 False)) \<noteq> None
   \<longleftrightarrow> improved (rev (all_val_hit (run 1 toy_args (toy_env (\<lambda>_. 1/10)) (init_state toy_args 0 False))))"
  by (rule ckpt_saved_iff_improved [OF reachable_run [OF reachable.start]])

text \<open>
  C6. Every way of leaving the loop funnels through cleanup: a converged run has exit
  code 0, printed the stop message then \<^verbatim>\<open>Done\<close> and closed the sampler; a run
  stopped by an \<open>Exception\<close> has exit code 1, printed the error last and closed the
  sampler; a running controller has no exit code.
\<close>

theorem exit_cleanup:
  assumes "reachable a env p0 q0 st"
  shows "exit_ok env st"
  using reachable_inv [OF assms] by simp

theorem exit_cleanup_witness:
  "status (run 4 toy_args (toy_env (\<lambda>_. 1/10)) (init_state toy_args 0 False)) = Converged
   \<and> exit_code (run 4 toy_args (toy_env (\<lambda>_. 1/10)) (init_state toy_args 0 False)) = Some 0
   \<and> sampler (run 4 toy_args (toy_env (\<lambda>_. 1/10)) (init_state toy_args 0 False)) = True
   \<and> (\<exists>xs. out (run 4 toy_args (toy_env (\<lambda>_. 1/10)) (init_state toy_args 0 False)) = xs @ [StopMsg, DoneMsg])"
proof -
  let ?S = "run 4 toy_args (toy_env (\<lambda>_. 1/10)) (init_state toy_args (0::nat) False)"
  have r: "reachable toy_args (toy_env (\<lambda>_. 1/10)) 0 False ?S"
    by (rule reachable_run [OF reachable.start])
  have c: "status ?S = Converged"
    by (simp add: run_simps toy_simps py_index_def numeral_eq_Suc Let_def)
  have "exit_ok (toy_env (\<lambda>_. 1/10)) ?S" by (rule exit_cleanup [OF r])
  with c show ?thesis by (auto simp: exit_ok_def toy_env_def)
qed

text \<open>
  C7. An exception that is not an \<open>Exception\<close> (Ctrl-C) escapes the
  \<^verbatim>\<open>except Exception\<close> clause: the step ends aborted with the state at the raise,
  without closing the sampler, printing, or setting an exit code.
\<close>

theorem keyboard_interrupt_no_cleanup:
  assumes "status st = Running" and "train_iteration a env st = Inl (KeyboardInterrupt, st')"
  shows "ctrl_step a env st = st'\<lparr>status := Aborted KeyboardInterrupt\<rparr>"
  using assms by (simp add: ctrl_step_def on_exception_def)

theorem keyboard_interrupt_no_cleanup_witness:
  "ctrl_step toy_args kbi_env (init_state toy_args 0 False)
     = (init_state toy_args 0 False)\<lparr>status := Aborted KeyboardInterrupt\<rparr>
   \<and> sampler (ctrl_step toy_args kbi_env (init_state toy_args (0::nat) False)) = False"
proof -
  have h1: "status (init_state toy_args (0::nat) False) = Running" by (simp add: init_state_def)
  have h2: "train_iteration toy_args kbi_env (init_state toy_args 0 False)
              = Inl (KeyboardInterrupt, init_state toy_args (0::nat) False)"
    by (simp add: kbi_env_def train_iteration_def fetch_batch_def)
  show ?thesis using keyboard_interrupt_no_cleanup [OF h1 h2] by (simp add: init_state_def)
qed

text \<open>
  C8. The comparison \<^verbatim>\<open>all_val_hit[-1] <= all_val_hit[-2]\<close> never raises
  \<^verbatim>\<open>IndexError\<close>: in every reachable state the history is non-empty, so after
  appending a value both indices exist.
\<close>

theorem comparison_never_raises:
  assumes "reachable a env p0 q0 st"
  shows "\<exists>brk st'. decide_eval (st\<lparr>all_val_hit := all_val_hit st @ [v]\<rparr>) = Inr (brk, st')"
proof -
  have "all_val_hit st \<noteq> []" using reachable_inv [OF assms] by (simp add: ctrl_inv_def)
  then show ?thesis by (auto simp: decide_eval_def Let_def)
qed

theorem comparison_never_raises_witness:
  "\<exists>brk st'. decide_eval ((init_state toy_args (0::nat) False)\<lparr>all_val_hit := all_val_hit (init_state toy_args (0::nat) False) @ [Fin (1/10)]\<rparr>) = Inr (brk, st')"
  by (rule comparison_never_raises [OF reachable.start [of toy_args "toy_env (\<lambda>_. 0)" "0::nat" False]])

text \<open>
  C9. Non-termination: when validation Hit@K alternates between 0.1 and 0.2, no
  three consecutive evaluations are non-improving and the \<^verbatim>\<open>while True\<close> loop
  never ends (\<open>main\<close> has no result).
\<close>

theorem flip_flop_never_stops:
  "main toy_args (toy_env ff_hits) 0 False = None"
proof (rule ccontr)
  assume "main toy_args (toy_env ff_hits) 0 False \<noteq> None"
  then obtain r where "main_loop toy_args (toy_env ff_hits) (init_state toy_args 0 False) = Some r"
    by (auto simp: main_def)
  then obtain n where "run n toy_args (toy_env ff_hits) (init_state toy_args 0 False) = r" "status r \<noteq> Running"
    using main_loop_run by blast
  moreover have "ff_inv (init_state toy_args 0 False)"
    by (simp add: ff_inv_def init_state_def)
  ultimately show False using ff_run by (auto simp: ff_inv_def)
qed

text \<open>
  C10. With \<^verbatim>\<open>--log_interval 0\<close> the first step trains on one batch, then
  \<^verbatim>\<open>step_count % args.log_interval\<close> raises \<^verbatim>\<open>ZeroDivisionError\<close>: the
  controller prints it, closes the sampler and exits with status 1.
\<close>

theorem log_interval_zero_fails:
  assumes "log_interval a = 0" and "next_batch env q0 = Inr (b, q1)"
    and "train_op env p0 b (args.lr a) (args.dropout a) = Inr (p1, l)"
  shows "ctrl_step a env (init_state a p0 q0) =
           (init_state a p1 (close_sampler env q1))\<lparr>step_count := 1, train_loss_l := l,
              out := [ErrorMsg ZeroDivisionError], status := Failed ZeroDivisionError, exit_code := Some 1\<rparr>"
  using assms by (simp add: run_simps init_state_def)

theorem log_interval_zero_fails_witness:
  "ctrl_step (toy_args\<lparr>log_interval := 0\<rparr>) (toy_env (\<lambda>_. 0)) (init_state (toy_args\<lparr>log_interval := 0\<rparr>) 0 False)
     = (init_state (toy_args\<lparr>log_interval := 0\<rparr>) 1 True)\<lparr>step_count := 1, train_loss_l := 1,
          out := [ErrorMsg ZeroDivisionError], status := Failed ZeroDivisionError, exit_code := Some 1\<rparr>"
proof -
  have h1: "log_interval (toy_args\<lparr>log_interval := 0\<rparr>) = 0" by simp
  have h2: "next_batch (toy_env (\<lambda>_. 0)) False = Inr ((), False)" by (simp add: toy_env_def)
  have h3: "train_op (toy_env (\<lambda>_. 0)) 0 () (args.lr (toy_args\<lparr>log_interval := 0\<rparr>))
              (args.dropout (toy_args\<lparr>log_interval := 0\<rparr>)) = Inr (1, 1)"
    by (simp add: toy_env_def)
  show ?thesis using log_interval_zero_fails [OF h1 h2 h3] by (simp add: toy_env_def)
qed

end
