(* ===== verification/Convergence.thy ===== *)
theory Convergence
  imports Controller
begin

text \<open>
  Termination of \<^verbatim>\<open>main()\<close> (lines 94--152) when the model has stopped improving.
  With positive logging and evaluation intervals, a sampler and an optimiser step that
  never raise, and a validation run that returns the same Hit@K every time, the loop
  evaluates every \<^verbatim>\<open>eval_interval\<close> steps (\<open>cycle\<close>), records the same value each
  time (\<open>periods\<close>), and by the invariant \<open>ctrl_inv\<close> of \<open>Controller\<close> must have
  stopped after four evaluations: the first may count as an improvement over the
  initial \<open>-1\<close>, the next three do not. The result is stated on \<open>main\<close>, the
  \<^theory_text>\<open>partial_function\<close> that is \<open>None\<close> on a loop that never stops, so it is a proof
  that the loop returns. \<open>main_loop_of_run\<close> is the converse of
  \<open>main_loop_run\<close>: a run of the fuelled loop that has stopped is the loop's result.
  The hypothesis that the result is not NaN is needed: a NaN result, which numpy
  division returns when the validation batches have no target, never compares as a
  non-improvement, and with it the loop provably never stops (\<open>nan_periods\<close>).
  The theory also bounds the learning rate over every reachable state (\<open>lr_after_within\<close>).
\<close>

section \<open>Definitions\<close>

text \<open>An example environment whose validation batches have no target: every evaluation
  divides \<open>0\<close> by a zero numpy count and returns NaN.\<close>

definition nan_env :: "(nat, unit, bool, unit, unit, unit) ctrl_env" where
  "nan_env = (toy_env (\<lambda>_. 0))\<lparr>eval_op := (\<lambda>p x y d. Inr (0, 0, 0))\<rparr>"

section \<open>Lemmas\<close>

lemma run_Suc_last: "run (Suc n) a env st = ctrl_step a env (run n a env st)"
  by (induction n arbitrary: st) simp_all

lemma run_add: "run (m + n) a env st = run n a env (run m a env st)"
  by (induction m arbitrary: st) simp_all

lemma run_stopped: "status st \<noteq> Running \<Longrightarrow> run n a env st = st"
  by (induction n) (simp_all add: ctrl_step_def)

lemma main_loop_of_run:
  "status (run n a env st) \<noteq> Running \<Longrightarrow> main_loop a env st = Some (run n a env st)"
proof (induction n arbitrary: st)
  case 0
  then show ?case by (simp add: main_loop.simps)
next
  case (Suc n)
  show ?case
  proof (cases "status st = Running")
    case True
    with Suc show ?thesis by (subst main_loop.simps) simp
  next
    case False
    then show ?thesis by (simp add: main_loop.simps run_stopped ctrl_step_def)
  qed
qed

lemma decide_eval_step_count:
  "decide_eval st = Inr (brk, st') \<Longrightarrow> step_count st' = step_count st"
  by (auto simp: decide_eval_def Let_def split: sum.splits if_splits)

lemma total_prefix:
  assumes nb: "\<forall>q. \<exists>b q'. next_batch env q = Inr (b, q')"
    and tr: "\<forall>p b l d. \<exists>p' x. train_op env p b l d = Inr (p', x)"
    and li: "0 < log_interval a"
  obtains st1 where "train_iteration a env st = eval_check a env st1"
    "step_count st1 = step_count st + 1" "all_val_hit st1 = all_val_hit st"
    "status st1 = status st" "exit_code st1 = exit_code st"
proof -
  obtain b q' where b: "next_batch env (sampler st) = Inr (b, q')" using nb by blast
  obtain p' x where p: "train_op env (params st) b (lr st) (args.dropout a) = Inr (p', x)" using tr by blast
  let ?st0 = "st\<lparr>sampler := q', params := p', train_loss_l := train_loss_l st + x, step_count := step_count st + 1\<rparr>"
  obtain st1 where l: "log_check a ?st0 = Inr ((), st1)" "step_count st1 = step_count ?st0"
     "all_val_hit st1 = all_val_hit st" "status st1 = status st" "exit_code st1 = exit_code st"
  proof (cases "(step_count st + 1) mod log_interval a = 0")
    case True
    then show ?thesis using li that by (simp add: log_check_def py_mod_def)
  next
    case False
    then show ?thesis using li that by (simp add: log_check_def py_mod_def)
  qed
  have "train_iteration a env st = eval_check a env st1"
    using b p l(1) by (simp add: train_iteration_def fetch_batch_def train_on_batch_def bindE_def)
  then show ?thesis using that l by simp
qed

lemma eval_decision_hist: "fst (snd (eval_decision d v)) = fst (snd d) @ [v]"
  by (cases d) (simp add: eval_decision_def)

lemma dproj_hist: "all_val_hit st = fst (snd (dproj st))"
  by (simp add: dproj_def)

lemma quiet_step:
  assumes nb: "\<forall>q. \<exists>b q'. next_batch env q = Inr (b, q')"
    and tr: "\<forall>p b l d. \<exists>p' x. train_op env p b l d = Inr (p', x)"
    and li: "0 < log_interval a" and ei: "0 < eval_interval a"
    and run: "status st = Running" and q: "(step_count st + 1) mod eval_interval a \<noteq> 0"
  shows "status (ctrl_step a env st) = Running \<and> all_val_hit (ctrl_step a env st) = all_val_hit st
         \<and> step_count (ctrl_step a env st) = step_count st + 1"
proof -
  obtain st1 where t: "train_iteration a env st = eval_check a env st1"
    and f: "step_count st1 = step_count st + 1" "all_val_hit st1 = all_val_hit st"
      "status st1 = status st"
    using total_prefix [OF nb tr li] by metis
  have "eval_check a env st1 = Inr (False, st1)"
    using ei q f(1) by (simp add: eval_check_def py_mod_def)
  then show ?thesis using t f run by (simp add: ctrl_step_def)
qed

lemma eval_step:
  assumes nb: "\<forall>q. \<exists>b q'. next_batch env q = Inr (b, q')"
    and tr: "\<forall>p b l d. \<exists>p' x. train_op env p b l d = Inr (p', x)"
    and ev: "\<forall>p. evaluate (eval_op env p) (val_data env) = Inr (h, n)"
    and li: "0 < log_interval a" and ei: "0 < eval_interval a"
    and run: "status st = Running" and ne: "all_val_hit st \<noteq> []"
    and q: "(step_count st + 1) mod eval_interval a = 0"
  shows "(status (ctrl_step a env st) = Converged \<or> status (ctrl_step a env st) = Running)
         \<and> all_val_hit (ctrl_step a env st) = all_val_hit st @ [h]
         \<and> step_count (ctrl_step a env st) = step_count st + 1"
proof -
  obtain st1 where t: "train_iteration a env st = eval_check a env st1"
    and f: "step_count st1 = step_count st + 1" "all_val_hit st1 = all_val_hit st"
      "status st1 = status st"
    using total_prefix [OF nb tr li] by metis
  let ?st2 = "st1\<lparr>all_val_hit := all_val_hit st1 @ [h], out := out st1 @ [EvalLine (step_count st1) h n]\<rparr>"
  obtain brk st' where d: "decide_eval ?st2 = Inr (brk, st')"
    and dp: "dproj st' = eval_decision (lr ?st2, all_val_hit st, early_stop_cn ?st2, ckpt ?st2 \<noteq> None) h"
    and s: "status st' = status ?st2"
    using decide_eval_appended [of ?st2 "all_val_hit st" h] ne f(2) by auto
  have e: "eval_check a env st1 = Inr (brk, st')"
    using ei q f(1) ev d by (simp add: eval_check_def py_mod_def)
  have c: "ctrl_step a env st = (if brk then finish env st' else st')"
    using t e run by (simp add: ctrl_step_def)
  have h: "all_val_hit st' = all_val_hit st @ [h]"
    using dp eval_decision_hist [of "(lr ?st2, all_val_hit st, early_stop_cn ?st2, ckpt ?st2 \<noteq> None)" h]
    by (simp add: dproj_hist)
  have sc: "step_count st' = step_count st + 1"
    using decide_eval_step_count [OF d] f(1) by simp
  show ?thesis
    using c h sc s f(3) run by (simp add: finish_def)
qed

lemma mod_offset_nonzero:
  "(s :: int) mod e = 0 \<Longrightarrow> 0 < j \<Longrightarrow> j < e \<Longrightarrow> (s + j) mod e \<noteq> 0"
  by (simp add: mod_add_left_eq [symmetric])

lemma quiet_run:
  assumes nb: "\<forall>q. \<exists>b q'. next_batch env q = Inr (b, q')"
    and tr: "\<forall>p b l d. \<exists>p' x. train_op env p b l d = Inr (p', x)"
    and li: "0 < log_interval a" and ei: "0 < eval_interval a"
    and run: "status st = Running" and m: "step_count st mod eval_interval a = 0"
  shows "i < nat (eval_interval a) \<Longrightarrow> status (run i a env st) = Running
         \<and> all_val_hit (run i a env st) = all_val_hit st \<and> step_count (run i a env st) = step_count st + int i"
proof (induction i)
  case 0
  then show ?case using run by simp
next
  case (Suc i)
  then have ih: "status (run i a env st) = Running" "all_val_hit (run i a env st) = all_val_hit st"
    "step_count (run i a env st) = step_count st + int i" by simp_all
  have "(step_count (run i a env st) + 1) mod eval_interval a \<noteq> 0"
    using mod_offset_nonzero [OF m, of "int i + 1"] ih(3) Suc.prems by (simp add: add.assoc)
  then show ?case
    using quiet_step [OF nb tr li ei ih(1)] ih by (simp add: run_Suc_last del: run.simps(2))
qed

lemma cycle:
  assumes nb: "\<forall>q. \<exists>b q'. next_batch env q = Inr (b, q')"
    and tr: "\<forall>p b l d. \<exists>p' x. train_op env p b l d = Inr (p', x)"
    and ev: "\<forall>p. evaluate (eval_op env p) (val_data env) = Inr (h, n)"
    and li: "0 < log_interval a" and ei: "0 < eval_interval a"
    and run: "status st = Running" and ne: "all_val_hit st \<noteq> []"
    and m: "step_count st mod eval_interval a = 0"
  shows "(status (run (nat (eval_interval a)) a env st) = Converged
          \<or> status (run (nat (eval_interval a)) a env st) = Running)
         \<and> all_val_hit (run (nat (eval_interval a)) a env st) = all_val_hit st @ [h]
         \<and> step_count (run (nat (eval_interval a)) a env st) = step_count st + eval_interval a"
proof -
  define k where "k = nat (eval_interval a) - 1"
  have k: "nat (eval_interval a) = Suc k" "k < nat (eval_interval a)" using ei by (simp_all add: k_def)
  note r = quiet_run [OF nb tr li ei run m k(2)]
  have q: "(step_count (run k a env st) + 1) mod eval_interval a = 0"
  proof -
    have "step_count (run k a env st) + 1 = step_count st + eval_interval a"
      using r k(1) ei by simp
    then show ?thesis using m by simp
  qed
  have ne': "all_val_hit (run k a env st) \<noteq> []" using r ne by simp
  note e = eval_step [OF nb tr ev li ei conjunct1 [OF r] ne' q]
  have u: "run (nat (eval_interval a)) a env st = ctrl_step a env (run k a env st)"
    using k(1) run_Suc_last by metis
  have "step_count (run k a env st) + 1 = step_count st + eval_interval a"
    using r k(1) ei by simp
  then show ?thesis
    unfolding u using e r by simp
qed

lemma periods:
  assumes nb: "\<forall>q. \<exists>b q'. next_batch env q = Inr (b, q')"
    and tr: "\<forall>p b l d. \<exists>p' x. train_op env p b l d = Inr (p', x)"
    and ev: "\<forall>p. evaluate (eval_op env p) (val_data env) = Inr (h, n)"
    and li: "0 < log_interval a" and ei: "0 < eval_interval a"
  shows "(status (run (j * nat (eval_interval a)) a env (init_state a p0 q0)) = Converged
          \<and> step_count (run (j * nat (eval_interval a)) a env (init_state a p0 q0)) \<le> int j * eval_interval a)
       \<or> (status (run (j * nat (eval_interval a)) a env (init_state a p0 q0)) = Running
          \<and> all_val_hit (run (j * nat (eval_interval a)) a env (init_state a p0 q0)) = Fin (-1) # replicate j h
          \<and> step_count (run (j * nat (eval_interval a)) a env (init_state a p0 q0)) = int j * eval_interval a)"
proof (induction j)
  case 0
  then show ?case by (simp add: init_state_def)
next
  case (Suc j)
  let ?N = "nat (eval_interval a)"
  let ?s = "run (j * ?N) a env (init_state a p0 q0)"
  have u: "run (Suc j * ?N) a env (init_state a p0 q0) = run ?N a env ?s"
    by (simp add: run_add [symmetric] add.commute del: run.simps(2))
  from Suc.IH show ?case
  proof
    assume c: "status ?s = Converged \<and> step_count ?s \<le> int j * eval_interval a"
    then have "run ?N a env ?s = ?s" by (simp add: run_stopped)
    with c ei show ?thesis unfolding u by (simp add: algebra_simps)
  next
    assume r: "status ?s = Running \<and> all_val_hit ?s = Fin (-1) # replicate j h
               \<and> step_count ?s = int j * eval_interval a"
    have m: "step_count ?s mod eval_interval a = 0" using r by simp
    note c = cycle [OF nb tr ev li ei conjunct1 [OF r] _ m]
    have "all_val_hit ?s @ [h] = Fin (-1) # replicate (Suc j) h"
      using r by (simp add: replicate_append_same [symmetric])
    then show ?thesis unfolding u using c r by (auto simp: algebra_simps)
  qed
qed

lemma nonimp_run_four: "h \<noteq> NaN \<Longrightarrow> 3 \<le> nonimp_run (rev (Fin (-1) # replicate 4 h))"
  by (simp add: numeral_eq_Suc pyfloat_le_refl)

lemma nonimp_run_nan: "nonimp_run (NaN # rest) = 0"
  by (cases rest) simp_all

lemma nan_periods:
  assumes nb: "\<forall>q. \<exists>b q'. next_batch env q = Inr (b, q')"
    and tr: "\<forall>p b l d. \<exists>p' x. train_op env p b l d = Inr (p', x)"
    and ev: "\<forall>p. evaluate (eval_op env p) (val_data env) = Inr (NaN, n)"
    and li: "0 < log_interval a" and ei: "0 < eval_interval a"
  shows "status (run (j * nat (eval_interval a)) a env (init_state a p0 q0)) = Running
         \<and> step_count (run (j * nat (eval_interval a)) a env (init_state a p0 q0)) = int j * eval_interval a"
proof (induction j)
  case 0
  then show ?case by (simp add: init_state_def)
next
  case (Suc j)
  let ?N = "nat (eval_interval a)"
  let ?s = "run (j * ?N) a env (init_state a p0 q0)"
  have u: "run (Suc j * ?N) a env (init_state a p0 q0) = run ?N a env ?s"
    by (simp add: run_add [symmetric] add.commute del: run.simps(2))
  have ne: "all_val_hit ?s \<noteq> []"
    using reachable_inv [OF reachable_run [OF reachable.start, of a env p0 q0 "j * ?N"]]
    by (simp add: ctrl_inv_def)
  have m: "step_count ?s mod eval_interval a = 0" using Suc.IH by simp
  note c = cycle [OF nb tr ev li ei conjunct1 [OF Suc.IH] ne m]
  have "ctrl_inv a (run ?N a env ?s)"
    using reachable_inv [OF reachable_run [OF reachable.start, of a env p0 q0 "Suc j * ?N"]] u by simp
  then have "status (run ?N a env ?s) \<noteq> Converged"
    using c by (simp add: ctrl_inv_def nonimp_run_nan)
  then show ?case unfolding u using c Suc.IH by (auto simp: algebra_simps)
qed

lemma lr_decay_within:
  "min l0 lr_min \<le> l \<Longrightarrow> l \<le> max l0 lr_min \<Longrightarrow>
     min l0 lr_min \<le> lr_decay l \<and> lr_decay l \<le> max l0 lr_min"
  by (auto simp: lr_decay_def lr_min_def)

lemma lr_after_within: "min l0 lr_min \<le> lr_after l0 k \<and> lr_after l0 k \<le> max l0 lr_min"
proof (induction k)
  case 0
  then show ?case by (simp add: lr_after_def)
next
  case (Suc k)
  then show ?case using lr_decay_within [of l0 "lr_after l0 k"] by (simp add: lr_after_Suc)
qed

section \<open>Properties\<close>

text \<open>
  C22. A model whose validation Hit@K no longer changes makes the training loop stop:
  when the intervals are positive, the sampler and the optimiser never raise and every
  evaluation returns the same result, other than NaN, \<^verbatim>\<open>main()\<close> returns, converged, with exit code
  \<open>0\<close>, after at most \<open>4 * eval_interval\<close> training steps.
\<close>

theorem constant_evaluation_converges:
  assumes nb: "\<forall>q. \<exists>b q'. next_batch env q = Inr (b, q')"
    and tr: "\<forall>p b l d. \<exists>p' x. train_op env p b l d = Inr (p', x)"
    and ev: "\<forall>p. evaluate (eval_op env p) (val_data env) = Inr (h, n)"
    and hn: "h \<noteq> NaN"
    and li: "0 < log_interval a" and ei: "0 < eval_interval a"
  shows "\<exists>st. main a env p0 q0 = Some st \<and> status st = Converged \<and> exit_code st = Some 0
              \<and> step_count st \<le> 4 * eval_interval a"
proof -
  let ?st = "run (4 * nat (eval_interval a)) a env (init_state a p0 q0)"
  have reach: "reachable a env p0 q0 ?st" by (rule reachable_run [OF reachable.start])
  have inv: "ctrl_inv a ?st" "exit_ok env ?st" using reachable_inv [OF reach] by simp_all
  have conv: "status ?st = Converged \<and> step_count ?st \<le> 4 * eval_interval a"
    using periods [OF nb tr ev li ei, of 4 p0 q0]
  proof
    assume "status ?st = Converged \<and> step_count ?st \<le> int 4 * eval_interval a"
    then show ?thesis by simp
  next
    assume r: "status ?st = Running \<and> all_val_hit ?st = Fin (-1) # replicate 4 h
               \<and> step_count ?st = int 4 * eval_interval a"
    then have "nonimp_run (rev (all_val_hit ?st)) < 3" using inv(1) by (simp add: ctrl_inv_def)
    with r nonimp_run_four [OF hn] show ?thesis by simp
  qed
  then have "main a env p0 q0 = Some ?st"
    by (simp add: main_def main_loop_of_run)
  with conv inv(2) show ?thesis by (auto simp: exit_ok_def)
qed

theorem constant_evaluation_converges_witness:
  "(\<forall>q. \<exists>b q'. next_batch (toy_env (\<lambda>_. 1/2)) q = Inr (b, q'))
   \<and> (\<forall>p b l d. \<exists>p' x. train_op (toy_env (\<lambda>_. 1/2)) p b l d = Inr (p', x))
   \<and> (\<forall>p. evaluate (eval_op (toy_env (\<lambda>_. 1/2)) p) (val_data (toy_env (\<lambda>_. 1/2))) = Inr (Fin (1/2), Fin 0))
   \<and> Fin (1/2) \<noteq> NaN \<and> 0 < log_interval toy_args \<and> 0 < eval_interval toy_args
   \<and> (\<exists>st. main toy_args (toy_env (\<lambda>_. 1/2)) 0 False = Some st \<and> status st = Converged
          \<and> exit_code st = Some 0 \<and> step_count st \<le> 4 * eval_interval toy_args)"
proof -
  have nb: "\<forall>q. \<exists>b q'. next_batch (toy_env (\<lambda>_. 1/2)) q = Inr (b, q')" by (simp add: toy_env_def)
  have tr: "\<forall>p b l d. \<exists>p' x. train_op (toy_env (\<lambda>_. 1/2)) p b l d = Inr (p', x)"
    by (simp add: toy_env_def)
  have ev: "\<forall>p. evaluate (eval_op (toy_env (\<lambda>_. 1/2)) p) (val_data (toy_env (\<lambda>_. 1/2))) = Inr (Fin (1/2), Fin 0)"
    by (simp add: toy_env_def evaluate_def)
  have li: "0 < log_interval toy_args" and ei: "0 < eval_interval toy_args"
    by (simp_all add: toy_args_def default_args_def)
  have hn: "Fin (1/2) \<noteq> NaN" by simp
  show ?thesis using nb tr ev hn li ei constant_evaluation_converges [OF nb tr ev hn li ei, of 0 False] by blast
qed

text \<open>
  C23. A validation set without scoreable targets makes the training loop run for ever:
  when the intervals are positive, the sampler and the optimiser never raise and every
  evaluation returns NaN (numpy's \<open>0 / 0\<close> at lines 89--90), the comparison
  \<open>nan <= prev\<close> of line 135 is always false, so every evaluation counts as an
  improvement (the counter is reset and a checkpoint saved) and \<^verbatim>\<open>main()\<close> never
  returns.
\<close>

theorem nan_evaluation_never_stops:
  assumes nb: "\<forall>q. \<exists>b q'. next_batch env q = Inr (b, q')"
    and tr: "\<forall>p b l d. \<exists>p' x. train_op env p b l d = Inr (p', x)"
    and ev: "\<forall>p. evaluate (eval_op env p) (val_data env) = Inr (NaN, n)"
    and li: "0 < log_interval a" and ei: "0 < eval_interval a"
  shows "main a env p0 q0 = None"
proof (rule ccontr)
  assume "main a env p0 q0 \<noteq> None"
  then obtain r where "main_loop a env (init_state a p0 q0) = Some r"
    by (auto simp: main_def)
  then obtain k where k: "run k a env (init_state a p0 q0) = r" "status r \<noteq> Running"
    using main_loop_run by blast
  let ?N = "nat (eval_interval a)"
  have "1 \<le> ?N" using ei by simp
  then have "k \<le> k * ?N" by simp
  then obtain d where d: "k * ?N = k + d" using le_Suc_ex by blast
  have "run (k * ?N) a env (init_state a p0 q0) = r"
    using d run_add [of k d a env] k(1) run_stopped [OF k(2), of d a env] by simp
  then show False using nan_periods [OF nb tr ev li ei, of k p0 q0] k(2) by simp
qed

theorem nan_evaluation_never_stops_witness:
  "(\<forall>q. \<exists>b q'. next_batch nan_env q = Inr (b, q'))
   \<and> (\<forall>p b l d. \<exists>p' x. train_op nan_env p b l d = Inr (p', x))
   \<and> (\<forall>p. evaluate (eval_op nan_env p) (val_data nan_env) = Inr (NaN, NaN))
   \<and> 0 < log_interval toy_args \<and> 0 < eval_interval toy_args
   \<and> main toy_args nan_env 0 False = None"
proof -
  have nb: "\<forall>q. \<exists>b q'. next_batch nan_env q = Inr (b, q')" by (simp add: nan_env_def toy_env_def)
  have tr: "\<forall>p b l d. \<exists>p' x. train_op nan_env p b l d = Inr (p', x)" by (simp add: nan_env_def toy_env_def)
  have ev: "\<forall>p. evaluate (eval_op nan_env p) (val_data nan_env) = Inr (NaN, NaN)"
    by (simp add: nan_env_def toy_env_def evaluate_def)
  have li: "0 < log_interval toy_args" and ei: "0 < eval_interval toy_args"
    by (simp_all add: toy_args_def default_args_def)
  show ?thesis using nb tr ev li ei nan_evaluation_never_stops [OF nb tr ev li ei, of 0 False] by blast
qed
text \<open>
  C29. Bounds of the learning rate: in every reachable state the rate lies between the
  smaller and the larger of the configured \<^verbatim>\<open>--lr\<close> and the floor \<open>1e-6\<close> of line
  137; the decay never leaves that interval.
\<close>

theorem lr_bounded:
  assumes "reachable a env p0 q0 st"
  shows "min (args.lr a) lr_min \<le> lr st \<and> lr st \<le> max (args.lr a) lr_min"
proof -
  have "lr st = lr_after (args.lr a) (nonimp_count (rev (all_val_hit st)))"
    using reachable_inv [OF assms] by (simp add: ctrl_inv_def)
  then show ?thesis using lr_after_within by simp
qed

theorem lr_bounded_witness:
  "lr (run 4 toy_args (toy_env (\<lambda>_. 1/10)) (init_state toy_args 0 False)) = 1 / 8000
   \<and> min (1 / 1000) lr_min \<le> (1 / 8000 :: real) \<and> (1 / 8000 :: real) \<le> max (1 / 1000) lr_min"
proof -
  let ?st = "run 4 toy_args (toy_env (\<lambda>_. 1/10)) (init_state toy_args 0 False)"
  have r: "reachable toy_args (toy_env (\<lambda>_. 1/10)) 0 False ?st" by (rule reachable_run [OF reachable.start])
  have l: "lr ?st = 1 / 8000" by (simp add: run_simps toy_simps py_index_def numeral_eq_Suc Let_def)
  have a: "args.lr toy_args = 1 / 1000" by (simp add: toy_args_def default_args_def)
  show ?thesis using lr_bounded [OF r] l a by simp
qed

end
