(* ===== verification/Epochs.thy ===== *)
theory Epochs
  imports Convergence
begin

text \<open>
  \<^verbatim>\<open>main()\<close> never reads \<^verbatim>\<open>args.epochs\<close>, although the option's help text
  (line 25) calls it the upper epoch limit: the loop's result does not depend on it.
  \<open>run_cong\<close> and \<open>main_loop_cong\<close> lift equal loop turns to equal results of the
  fuelled run and of the \<^theory_text>\<open>partial_function\<close> \<open>main_loop\<close> (through the
  fuelled run in both directions); \<open>statements_epochs\<close> shows that no statement group
  of the loop body reads the option.
\<close>

section \<open>Lemmas\<close>

lemma run_cong: "(\<And>st. ctrl_step a env st = ctrl_step a' env st) \<Longrightarrow> run n a env st = run n a' env st"
  by (induction n arbitrary: st) simp_all

lemma main_loop_cong:
  assumes step: "\<And>st. ctrl_step a env st = ctrl_step a' env st"
  shows "main_loop a env st = main_loop a' env st"
proof -
  have one: "main_loop b' env st = Some r"
    if m: "main_loop b env st = Some r" and s: "\<And>st. ctrl_step b env st = ctrl_step b' env st" for b b' r
  proof -
    obtain n where "run n b env st = r" "status r \<noteq> Running" using main_loop_run [OF m] by blast
    then show ?thesis using main_loop_of_run [of n b' env st] run_cong [of b env b' n st] s by simp
  qed
  show ?thesis
  proof (cases "main_loop a env st")
    case None
    then show ?thesis using one [where b = a' and b' = a] step
      by (metis option.exhaust option.simps(3))
  next
    case (Some r)
    then show ?thesis using one [where b = a and b' = a' and r = r] step by simp
  qed
qed

lemma statements_epochs:
  "train_on_batch (a\<lparr>epochs := n\<rparr>) = train_on_batch a" "log_check (a\<lparr>epochs := n\<rparr>) = log_check a"
  "eval_check (a\<lparr>epochs := n\<rparr>) = eval_check a"
proof -
  have f: "args.lr (a\<lparr>epochs := n\<rparr>) = args.lr a" "args.dropout (a\<lparr>epochs := n\<rparr>) = args.dropout a"
    "log_interval (a\<lparr>epochs := n\<rparr>) = log_interval a" "eval_interval (a\<lparr>epochs := n\<rparr>) = eval_interval a"
    by simp_all
  show "train_on_batch (a\<lparr>epochs := n\<rparr>) = train_on_batch a" "log_check (a\<lparr>epochs := n\<rparr>) = log_check a"
    "eval_check (a\<lparr>epochs := n\<rparr>) = eval_check a"
    unfolding fun_eq_iff train_on_batch_def log_check_def eval_check_def f by simp_all
qed

lemma ctrl_step_epochs: "ctrl_step (a\<lparr>epochs := n\<rparr>) env st = ctrl_step a env st"
  by (simp add: ctrl_step_def train_iteration_def statements_epochs)

section \<open>Properties\<close>

text \<open>
  C32. \<^verbatim>\<open>main()\<close> ignores \<^verbatim>\<open>--epochs\<close>: changing it does not change the result of
  the loop, whether the loop stops or runs for ever.
\<close>

theorem epochs_ignored: "main (a\<lparr>epochs := n\<rparr>) env p0 q0 = main a env p0 q0"
proof -
  have i: "init_state (a\<lparr>epochs := n\<rparr>) p0 q0 = init_state a p0 q0" by (simp add: init_state_def)
  have "\<And>st. ctrl_step (a\<lparr>epochs := n\<rparr>) env st = ctrl_step a env st" by (rule ctrl_step_epochs)
  from main_loop_cong [OF this] i show ?thesis by (simp add: main_def)
qed

end
