(* ===== verification/Logging.thy ===== *)
theory Logging
  imports Controller
begin

text \<open>
  The printed log of \<^verbatim>\<open>main()\<close>. Lines 110--116 add each batch's loss to
  \<^verbatim>\<open>train_loss_l\<close> and count the step, lines 117--124 print
  \<^verbatim>\<open>train_loss_l / args.log_interval\<close> every \<^verbatim>\<open>log_interval\<close> steps and reset
  the sum, lines 126--131 record and print each validation result. Two invariants hold in
  every reachable state: \<open>log_inv\<close> (for an optimiser whose loss is a constant \<open>c\<close>,
  the printed average is exactly \<open>c\<close> and the sum holds the losses since the last
  report) and \<open>eval_log_inv\<close> (the printed validation results are the recorded history,
  each at a multiple of \<^verbatim>\<open>eval_interval\<close>). Both are carried through a loop turn by
  \<open>ctrl_step_preserve\<close>, which reduces an invariant of \<open>ctrl_step\<close> to one fact per
  statement group of the body. \<open>quiet\<close> relates a state to a later one with the same
  loss sum and step counter that has appended no loss report.
\<close>

section \<open>Definitions\<close>

text \<open>Every loss report in \<open>evs\<close> carries the average \<open>c\<close>; \<open>evs\<close> has no loss report.\<close>

definition logs_ok :: "real \<Rightarrow> event list \<Rightarrow> bool" where
  "logs_ok c evs \<longleftrightarrow> list_all (\<lambda>e. case e of LogLine s l avg \<Rightarrow> avg = c | _ \<Rightarrow> True) evs"

definition no_log :: "event list \<Rightarrow> bool" where
  "no_log evs \<longleftrightarrow> list_all (\<lambda>e. case e of LogLine s l avg \<Rightarrow> False | _ \<Rightarrow> True) evs"

definition log_inv :: "real \<Rightarrow> int \<Rightarrow> ('p, 'q) train_state \<Rightarrow> bool" where
  "log_inv c k st \<longleftrightarrow> train_loss_l st = c * of_int (step_count st mod k) \<and> logs_ok c (out st)"

definition quiet :: "('p, 'q) train_state \<Rightarrow> ('p, 'q) train_state \<Rightarrow> bool" where
  "quiet st st' \<longleftrightarrow> train_loss_l st' = train_loss_l st \<and> step_count st' = step_count st
     \<and> (\<exists>xs. out st' = out st @ xs \<and> no_log xs)"

text \<open>The validation Hit@K values printed at lines 129--130, in order, and whether every
  evaluation line names a step that is a multiple of \<open>k\<close> and at most \<open>sc\<close>.\<close>

fun eval_hits :: "event list \<Rightarrow> pyfloat list" where
  "eval_hits [] = []"
| "eval_hits (EvalLine n h v # es) = h # eval_hits es"
| "eval_hits (e # es) = eval_hits es"

definition evals_at :: "int \<Rightarrow> int \<Rightarrow> event list \<Rightarrow> bool" where
  "evals_at k sc evs \<longleftrightarrow> list_all (\<lambda>e. case e of EvalLine n h v \<Rightarrow> n mod k = 0 \<and> n \<le> sc | _ \<Rightarrow> True) evs"

definition eval_log_inv :: "args \<Rightarrow> ('p, 'q) train_state \<Rightarrow> bool" where
  "eval_log_inv a st \<longleftrightarrow> all_val_hit st \<noteq> [] \<and> eval_hits (out st) = tl (all_val_hit st)
     \<and> evals_at (eval_interval a) (step_count st) (out st)"

section \<open>Lemmas\<close>

lemma logs_ok_append [simp]: "logs_ok c (xs @ ys) \<longleftrightarrow> logs_ok c xs \<and> logs_ok c ys"
  by (simp add: logs_ok_def)

lemma no_log_append [simp]: "no_log (xs @ ys) \<longleftrightarrow> no_log xs \<and> no_log ys"
  by (simp add: no_log_def)

lemma no_log_Nil [simp]: "no_log []"
  by (simp add: no_log_def)

lemma logs_ok_LogLine_single [simp]: "logs_ok c [LogLine n l avg] \<longleftrightarrow> avg = c"
  by (simp add: logs_ok_def)

lemma no_log_logs_ok: "no_log xs \<Longrightarrow> logs_ok c xs"
  by (induction xs) (auto simp: no_log_def logs_ok_def split: event.splits)

lemma logs_ok_LogLine: "logs_ok c evs \<Longrightarrow> LogLine s l avg \<in> set evs \<Longrightarrow> avg = c"
  by (induction evs) (auto simp: logs_ok_def)

lemma quiet_append:
  "no_log xs \<Longrightarrow> train_loss_l st' = train_loss_l st \<Longrightarrow> step_count st' = step_count st
   \<Longrightarrow> out st' = out st @ xs \<Longrightarrow> quiet st st'"
  by (auto simp: quiet_def)

lemma quiet_refl [simp]: "quiet st st"
  by (rule quiet_append [of "[]"]) (simp_all add: no_log_def)

lemma quiet_trans:
  assumes "quiet st st'" and "quiet st' st''"
  shows "quiet st st''"
proof -
  obtain xs ys where "out st' = out st @ xs" "no_log xs" "out st'' = out st' @ ys" "no_log ys"
    using assms by (auto simp: quiet_def)
  then show ?thesis using assms by (intro quiet_append [of "xs @ ys"]) (simp_all add: quiet_def)
qed

lemma quiet_log_inv: "quiet st st' \<Longrightarrow> log_inv c k st \<Longrightarrow> log_inv c k st'"
  by (auto simp: quiet_def log_inv_def no_log_logs_ok)

lemma decide_eval_quiet: "decide_eval st = Inr (brk, st') \<Longrightarrow> quiet st st'"
  by (auto simp: decide_eval_def Let_def no_log_def split: sum.splits if_splits
           intro: quiet_append [of "[]"] quiet_append [of "[StopMsg]"])

lemma eval_check_quiet:
  "eval_check a env st = Inr (brk, st') \<Longrightarrow> quiet st st'"
  "eval_check a env st = Inl (e, st') \<Longrightarrow> quiet st st'"
proof -
  have step: "quiet st (st\<lparr>all_val_hit := hs, out := out st @ [EvalLine n h d]\<rparr>)" for hs n h d
    by (rule quiet_append [of "[EvalLine n h d]"]) (simp_all add: no_log_def)
  show "eval_check a env st = Inr (brk, st') \<Longrightarrow> quiet st st'"
    by (auto simp: eval_check_def split: sum.splits if_splits
             intro: quiet_trans [OF step decide_eval_quiet])
  show "eval_check a env st = Inl (e, st') \<Longrightarrow> quiet st st'"
    by (auto simp: eval_check_def decide_eval_def Let_def split: sum.splits if_splits intro: step)
qed

lemma finish_quiet: "quiet st (finish env st)"
  by (rule quiet_append [of "[DoneMsg]"]) (simp_all add: finish_def no_log_def)

lemma on_exception_quiet: "quiet st (on_exception env e st)"
proof (cases "is_Exception e")
  case True
  then show ?thesis by (intro quiet_append [of "[ErrorMsg e]"]) (simp_all add: on_exception_def no_log_def)
next
  case False
  then show ?thesis by (simp add: on_exception_def quiet_def)
qed

lemma mod_pred_wrap: "0 < (k::int) \<Longrightarrow> n mod k = 0 \<Longrightarrow> (n - 1) mod k + 1 = k"
proof -
  assume k: "0 < k" and n: "n mod k = 0"
  have "(n - 1) mod k = (n mod k - 1) mod k" by (simp add: mod_diff_left_eq)
  also have "\<dots> = k - 1" using k n by (simp add: zmod_minus1)
  finally show ?thesis by simp
qed

lemma mod_pred_succ: "0 < (k::int) \<Longrightarrow> n mod k \<noteq> 0 \<Longrightarrow> (n - 1) mod k + 1 = n mod k"
proof -
  assume k: "0 < k" and n: "n mod k \<noteq> 0"
  let ?r = "(n - 1) mod k"
  have r: "0 \<le> ?r" "?r < k" using k by simp_all
  have e: "n mod k = (?r + 1) mod k" by (metis diff_add_cancel mod_add_left_eq)
  show ?thesis
  proof (cases "?r + 1 < k")
    case True
    then show ?thesis using e r by simp
  next
    case False
    then have "?r + 1 = k" using r by simp
    then show ?thesis using e n by simp
  qed
qed

lemma on_exception_log_inv: "log_inv c k st \<Longrightarrow> log_inv c k (on_exception env e st)"
  by (rule quiet_log_inv [OF on_exception_quiet])

lemma finish_log_inv: "log_inv c k st \<Longrightarrow> log_inv c k (finish env st)"
  by (rule quiet_log_inv [OF finish_quiet])

lemma fetch_batch_quiet:
  "fetch_batch env st = Inr (b, st') \<Longrightarrow> quiet st st'"
  by (auto simp: fetch_batch_def quiet_def split: sum.splits prod.splits)

lemma train_on_batch_loss:
  assumes lossc: "\<forall>p b l d p' x. train_op env p b l d = Inr (p', x) \<longrightarrow> x = c"
    and inv: "log_inv c k st" and t: "train_on_batch a env b st = Inr (u, st')"
  shows "train_loss_l st' = c * of_int ((step_count st' - 1) mod k + 1) \<and> logs_ok c (out st')"
proof -
  obtain p' x where o: "train_op env (params st) b (lr st) (args.dropout a) = Inr (p', x)"
    and s: "st' = st\<lparr>params := p', train_loss_l := train_loss_l st + x, step_count := step_count st + 1\<rparr>"
    using t by (auto simp: train_on_batch_def split: sum.splits prod.splits)
  have "x = c" using lossc o by blast
  then show ?thesis using s inv by (simp add: log_inv_def algebra_simps)
qed

lemma log_check_inv:
  assumes k: "0 < log_interval a"
    and m: "train_loss_l st = c * of_int ((step_count st - 1) mod log_interval a + 1)"
    and o: "logs_ok c (out st)"
  shows "\<exists>st'. log_check a st = Inr ((), st') \<and> log_inv c (log_interval a) st'"
proof (cases "step_count st mod log_interval a = 0")
  case True
  have "train_loss_l st / of_int (log_interval a) = c"
    using m mod_pred_wrap [OF k True] k by simp
  then show ?thesis using True k o by (simp add: log_check_def py_mod_def log_inv_def)
next
  case False
  then show ?thesis using k m o mod_pred_succ [OF k False] by (simp add: log_check_def py_mod_def log_inv_def)
qed

lemma ctrl_step_preserve:
  assumes fetch: "\<And>st b st'. P st \<Longrightarrow> fetch_batch env st = Inr (b, st') \<Longrightarrow> P st'"
    and train: "\<And>st b u st'. P st \<Longrightarrow> train_on_batch a env b st = Inr (u, st') \<Longrightarrow> Q st'"
    and log_ok: "\<And>st u st'. Q st \<Longrightarrow> log_check a st = Inr (u, st') \<Longrightarrow> P st'"
    and log_err: "\<And>st e st'. Q st \<Longrightarrow> log_check a st = Inl (e, st') \<Longrightarrow> P (on_exception env e st')"
    and eval_ok: "\<And>st brk st'. P st \<Longrightarrow> eval_check a env st = Inr (brk, st') \<Longrightarrow> P st'"
    and eval_err: "\<And>st e st'. P st \<Longrightarrow> eval_check a env st = Inl (e, st') \<Longrightarrow> P st'"
    and fin: "\<And>st. P st \<Longrightarrow> P (finish env st)"
    and exc: "\<And>st e. P st \<Longrightarrow> P (on_exception env e st)"
    and inv: "P st"
  shows "P (ctrl_step a env st)"
proof (cases "status st = Running")
  case False
  then show ?thesis using inv by (simp add: ctrl_step_def)
next
  case run: True
  show ?thesis
  proof (cases "fetch_batch env st")
    case (Inl r)
    then obtain e s1 where f: "fetch_batch env st = Inl (e, s1)" by (cases r) auto
    then have "s1 = st" by (rule fetch_batch_frame(2))
    then show ?thesis using run f exc [OF inv, of e]
      by (simp add: ctrl_step_def train_iteration_def bindE_def)
  next
    case (Inr r)
    then obtain b s1 where f: "fetch_batch env st = Inr (b, s1)" by (cases r) auto
    have p1: "P s1" by (rule fetch [OF inv f])
    show ?thesis
    proof (cases "train_on_batch a env b s1")
      case (Inl r2)
      then obtain e s2 where t: "train_on_batch a env b s1 = Inl (e, s2)" by (cases r2) auto
      then have "s2 = s1" by (rule train_on_batch_frame(2))
      then show ?thesis using run f t exc [OF p1, of e]
        by (simp add: ctrl_step_def train_iteration_def bindE_def)
    next
      case (Inr r2)
      then obtain u s2 where t: "train_on_batch a env b s1 = Inr (u, s2)" by (cases r2) auto
      have q2: "Q s2" by (rule train [OF p1 t])
      show ?thesis
      proof (cases "log_check a s2")
        case (Inl r3)
        then obtain e s3 where l: "log_check a s2 = Inl (e, s3)" by (cases r3) auto
        then show ?thesis using run f t log_err [OF q2 l]
          by (simp add: ctrl_step_def train_iteration_def bindE_def)
      next
        case (Inr r3)
        then obtain u3 s3 where l: "log_check a s2 = Inr (u3, s3)" by (cases r3) auto
        have p3: "P s3" by (rule log_ok [OF q2 l])
        have it: "train_iteration a env st = eval_check a env s3"
          using f t l by (simp add: train_iteration_def bindE_def)
        show ?thesis
        proof (cases "eval_check a env s3")
          case (Inl r4)
          then obtain e s4 where e: "eval_check a env s3 = Inl (e, s4)" by (cases r4) auto
          show ?thesis using run it e exc [OF eval_err [OF p3 e], of e] by (simp add: ctrl_step_def)
        next
          case (Inr r4)
          then obtain brk s4 where e: "eval_check a env s3 = Inr (brk, s4)" by (cases r4) auto
          have "P s4" by (rule eval_ok [OF p3 e])
          then show ?thesis using run it e fin [of s4] by (simp add: ctrl_step_def)
        qed
      qed
    qed
  qed
qed

lemma log_check_no_error: "0 < log_interval a \<Longrightarrow> log_check a st \<noteq> Inl (e, st')"
  by (auto simp: log_check_def py_mod_def)

lemma ctrl_step_log_inv:
  assumes k: "0 < log_interval a"
    and lossc: "\<forall>p b l d p' x. train_op env p b l d = Inr (p', x) \<longrightarrow> x = c"
    and inv: "log_inv c (log_interval a) st"
  shows "log_inv c (log_interval a) (ctrl_step a env st)"
proof (rule ctrl_step_preserve [where Q = "\<lambda>st. train_loss_l st = c * of_int ((step_count st - 1) mod log_interval a + 1)
                                                \<and> logs_ok c (out st)"])
  fix st u st' assume "train_loss_l st = c * of_int ((step_count st - 1) mod log_interval a + 1) \<and> logs_ok c (out st)"
    and l: "log_check a st = Inr (u, st')"
  then show "log_inv c (log_interval a) st'" using log_check_inv [OF k] by fastforce
qed (auto simp: log_check_no_error [OF k] inv dest: train_on_batch_loss [OF lossc]
          intro: quiet_log_inv [OF fetch_batch_quiet] quiet_log_inv [OF eval_check_quiet(1)]
                 quiet_log_inv [OF eval_check_quiet(2)] finish_log_inv on_exception_log_inv)

lemma reachable_log_inv:
  assumes "reachable a env p0 q0 st" and "0 < log_interval a"
    and "\<forall>p b l d p' x. train_op env p b l d = Inr (p', x) \<longrightarrow> x = c"
  shows "log_inv c (log_interval a) st"
  using assms(1)
proof (induction rule: reachable.induct)
  case start
  then show ?case by (simp add: init_state_def log_inv_def logs_ok_def)
next
  case (step st)
  then show ?case using ctrl_step_log_inv [OF assms(2,3)] by blast
qed

lemma eval_hits_append [simp]: "eval_hits (xs @ ys) = eval_hits xs @ eval_hits ys"
  by (induction xs rule: eval_hits.induct) simp_all

lemma evals_at_append [simp]: "evals_at k sc (xs @ ys) \<longleftrightarrow> evals_at k sc xs \<and> evals_at k sc ys"
  by (simp add: evals_at_def)

lemma evals_at_mono: "evals_at k sc evs \<Longrightarrow> sc \<le> sc' \<Longrightarrow> evals_at k sc' evs"
  by (induction evs) (auto simp: evals_at_def split: event.splits)

lemma decide_eval_log:
  "decide_eval st = Inr (brk, st') \<Longrightarrow>
     all_val_hit st' = all_val_hit st \<and> step_count st' = step_count st
     \<and> (out st' = out st \<or> out st' = out st @ [StopMsg])"
  "decide_eval st = Inl (e, st') \<Longrightarrow> st' = st"
  by (auto simp: decide_eval_def Let_def split: sum.splits if_splits)

lemma eval_check_log:
  assumes inv: "eval_log_inv a st"
  shows "eval_check a env st = Inr (brk, st') \<Longrightarrow> eval_log_inv a st'"
    and "eval_check a env st = Inl (e, st') \<Longrightarrow> eval_log_inv a st'"
proof -
  let ?upd = "\<lambda>h v. st\<lparr>all_val_hit := all_val_hit st @ [h], out := out st @ [EvalLine (step_count st) h v]\<rparr>"
  have u: "eval_interval a dvd step_count st \<Longrightarrow> eval_log_inv a (?upd h v)" for h v
    using inv by (simp add: eval_log_inv_def evals_at_def dvd_eq_mod_eq_0)
  have d: "eval_log_inv a st''" if "eval_log_inv a st'" "decide_eval st' = Inr (brk', st'')" for st' st'' brk'
    using that decide_eval_log(1) [OF that(2)] by (auto simp: eval_log_inv_def evals_at_def)
  show "eval_check a env st = Inr (brk, st') \<Longrightarrow> eval_log_inv a st'"
    using inv by (auto simp: eval_check_def py_mod_def split: sum.splits if_splits intro: d [OF u])
  show "eval_check a env st = Inl (e, st') \<Longrightarrow> eval_log_inv a st'"
  proof -
    assume e: "eval_check a env st = Inl (e, st')"
    show ?thesis
    proof (cases "st' = st")
      case True
      then show ?thesis using inv by simp
    next
      case False
      then obtain h v where "eval_interval a dvd step_count st" "decide_eval (?upd h v) = Inl (e, st')"
        using e by (auto simp: eval_check_def py_mod_def split: sum.splits if_splits)
      then show ?thesis using u decide_eval_log(2) by metis
    qed
  qed
qed

lemma train_on_batch_eval_log:
  assumes inv: "eval_log_inv a st" and t: "train_on_batch a env b st = Inr (u, st')"
  shows "eval_log_inv a st'"
proof -
  have s: "step_count st' = step_count st + 1" "out st' = out st" "all_val_hit st' = all_val_hit st"
    using t by (auto simp: train_on_batch_def split: sum.splits prod.splits)
  have "evals_at (eval_interval a) (step_count st) (out st)" using inv by (simp add: eval_log_inv_def)
  then have "evals_at (eval_interval a) (step_count st') (out st')"
    using s by (auto intro: evals_at_mono)
  then show ?thesis using inv s by (simp add: eval_log_inv_def)
qed

lemma appended_eval_log:
  "eval_log_inv a st \<Longrightarrow> all_val_hit st' = all_val_hit st \<Longrightarrow> step_count st' = step_count st
   \<Longrightarrow> out st' = out st @ [ev] \<Longrightarrow> eval_hits [ev] = [] \<Longrightarrow> evals_at (eval_interval a) (step_count st) [ev]
   \<Longrightarrow> eval_log_inv a st'"
  by (simp add: eval_log_inv_def)

lemma on_exception_eval_log: "eval_log_inv a st \<Longrightarrow> eval_log_inv a (on_exception env e st)"
  by (cases "is_Exception e")
     (auto simp: on_exception_def eval_log_inv_def evals_at_def intro: appended_eval_log)

lemma ctrl_step_eval_log:
  "eval_log_inv a st \<Longrightarrow> eval_log_inv a (ctrl_step a env st)"
proof (rule ctrl_step_preserve [where Q = "eval_log_inv a"], goal_cases)
  case (1 st b st')
  then show ?case by (auto simp: fetch_batch_def eval_log_inv_def split: sum.splits prod.splits)
next
  case (2 st b u st')
  show ?case by (rule train_on_batch_eval_log [OF 2(2,3)])
next
  case (3 st u st')
  then show ?case
    by (auto simp: log_check_def evals_at_def split: sum.splits if_splits intro: appended_eval_log)
next
  case (4 st e st')
  then have "st' = st" by (simp add: log_check_frame(2))
  then show ?case using on_exception_eval_log [OF 4(2)] by simp
next
  case (5 st brk st')
  show ?case by (rule eval_check_log(1) [OF 5(2,3)])
next
  case (6 st e st')
  show ?case by (rule eval_check_log(2) [OF 6(2,3)])
next
  case (7 st)
  then show ?case by (auto simp: finish_def evals_at_def intro: appended_eval_log)
next
  case (8 st e)
  show ?case by (rule on_exception_eval_log [OF 8(2)])
qed

lemma reachable_eval_log: "reachable a env p0 q0 st \<Longrightarrow> eval_log_inv a st"
proof (induction rule: reachable.induct)
  case start
  then show ?case by (simp add: init_state_def eval_log_inv_def evals_at_def)
next
  case (step st)
  from step.IH show ?case by (rule ctrl_step_eval_log)
qed

section \<open>Properties\<close>

text \<open>
  C24. The average loss printed at lines 122--123 is right: if every optimiser step
  returns the loss \<open>c\<close> and \<^verbatim>\<open>log_interval\<close> is positive, then in every reachable
  state the running sum is \<open>c\<close> times the number of steps since the last report, and
  every loss line printed so far shows the average \<open>c\<close>.
\<close>

theorem log_average_loss:
  assumes "reachable a env p0 q0 st" and "0 < log_interval a"
    and "\<forall>p b l d p' x. train_op env p b l d = Inr (p', x) \<longrightarrow> x = c"
  shows "train_loss_l st = c * of_int (step_count st mod log_interval a)
         \<and> (\<forall>n l avg. LogLine n l avg \<in> set (out st) \<longrightarrow> avg = c)"
  using reachable_log_inv [OF assms] by (auto simp: log_inv_def dest: logs_ok_LogLine)

theorem log_average_loss_witness:
  "train_loss_l (run 3 (toy_args\<lparr>log_interval := 2\<rparr>) (toy_env (\<lambda>_. 1/10)) (init_state (toy_args\<lparr>log_interval := 2\<rparr>) 0 False))
     = 1 * of_int (step_count (run 3 (toy_args\<lparr>log_interval := 2\<rparr>) (toy_env (\<lambda>_. 1/10)) (init_state (toy_args\<lparr>log_interval := 2\<rparr>) 0 False)) mod 2)
   \<and> LogLine 2 (1 / 1000) 1 \<in> set (out (run 3 (toy_args\<lparr>log_interval := 2\<rparr>) (toy_env (\<lambda>_. 1/10)) (init_state (toy_args\<lparr>log_interval := 2\<rparr>) 0 False)))"
proof -
  let ?a = "toy_args\<lparr>log_interval := 2\<rparr>"
  let ?env = "toy_env (\<lambda>_. 1/10)"
  have r: "reachable ?a ?env 0 False (run 3 ?a ?env (init_state ?a 0 False))"
    by (rule reachable_run [OF reachable.start])
  have k: "0 < log_interval ?a" by simp
  have c: "\<forall>p b l d p' x. train_op ?env p b l d = Inr (p', x) \<longrightarrow> x = 1" by (simp add: toy_env_def)
  have l: "LogLine 2 (1 / 1000) 1 \<in> set (out (run 3 ?a ?env (init_state ?a 0 False)))"
    by (simp add: run_simps toy_simps py_index_def numeral_eq_Suc Let_def)
  show ?thesis using log_average_loss [OF r k c] l by simp
qed

text \<open>
  C28. The validation results printed at lines 129--130 are exactly the recorded history
  \<^verbatim>\<open>all_val_hit\<close> without its initial \<open>-1\<close>, in order, and each evaluation line
  names a step that is a multiple of \<^verbatim>\<open>eval_interval\<close> and not beyond the current step.
\<close>

theorem eval_log_matches_history:
  assumes "reachable a env p0 q0 st"
  shows "eval_hits (out st) = tl (all_val_hit st)
         \<and> (\<forall>n h v. EvalLine n h v \<in> set (out st) \<longrightarrow> n mod eval_interval a = 0 \<and> n \<le> step_count st)"
  using reachable_eval_log [OF assms]
  by (auto simp: eval_log_inv_def evals_at_def list_all_iff split: event.splits)

theorem eval_log_matches_history_witness:
  "eval_hits (out (run 3 (toy_args\<lparr>eval_interval := 2\<rparr>) (toy_env (\<lambda>_. 1/10)) (init_state (toy_args\<lparr>eval_interval := 2\<rparr>) 0 False)))
     = tl (all_val_hit (run 3 (toy_args\<lparr>eval_interval := 2\<rparr>) (toy_env (\<lambda>_. 1/10)) (init_state (toy_args\<lparr>eval_interval := 2\<rparr>) 0 False)))
   \<and> EvalLine 2 (Fin (1/10)) (Fin 0) \<in> set (out (run 3 (toy_args\<lparr>eval_interval := 2\<rparr>) (toy_env (\<lambda>_. 1/10)) (init_state (toy_args\<lparr>eval_interval := 2\<rparr>) 0 False)))
   \<and> (2 :: int) \<le> step_count (run 3 (toy_args\<lparr>eval_interval := 2\<rparr>) (toy_env (\<lambda>_. 1/10)) (init_state (toy_args\<lparr>eval_interval := 2\<rparr>) 0 False))"
proof -
  let ?a = "toy_args\<lparr>eval_interval := 2\<rparr>"
  let ?env = "toy_env (\<lambda>_. 1/10)"
  let ?st = "run 3 ?a ?env (init_state ?a 0 False)"
  have r: "reachable ?a ?env 0 False ?st" by (rule reachable_run [OF reachable.start])
  have l: "EvalLine 2 (Fin (1/10)) (Fin 0) \<in> set (out ?st)"
    by (simp add: run_simps toy_simps py_index_def numeral_eq_Suc Let_def)
  show ?thesis using eval_log_matches_history [OF r] l by blast
qed

end
