(* ===== verification/EvalBatches.thy ===== *)
theory EvalBatches
  imports Evaluation
begin

text \<open>
  The validation batches. \<^verbatim>\<open>prepare_eval_test\<close> lives in \<^verbatim>\<open>utils.py\<close>, which is not
  among the repository's sources, so it is modelled from the specification (section 4.3):
  each user's sequence becomes one evaluation instance whose input is the sequence
  without its last item and whose per-position targets are the sequence shifted by one,
  both left-padded with the item \<open>0\<close> ("no item") or truncated to \<open>max_test_len\<close>;
  the instances are cut into consecutive batches of \<open>batch_size\<close> and each batch is
  stacked into the columns \<open>(users, inputs, positives)\<close> that \<open>Evaluation.evaluate\<close>
  reads. A zero batch size raises \<^verbatim>\<open>ValueError\<close> (Python's \<^verbatim>\<open>range\<close> with step 0).
  The call of \<^verbatim>\<open>train.py\<close> line 65 is \<open>val_batches\<close>.

  The model's \<^verbatim>\<open>hit_at_k\<close>, \<^verbatim>\<open>ndcg_at_k\<close> and \<^verbatim>\<open>num_target\<close> sum per-target
  outcomes over the batch (\<open>batch_metrics\<close>, also from the specification). With it the
  lemmas show that the metrics \<open>evaluate\<close> returns are the macro-average over all
  targets (\<open>macro_metrics\<close>), whatever the batch size: the normalisation by the total
  target count is what makes the result independent of the grouping.
\<close>

type_synonym item = int
type_synonym user = int

section \<open>Definitions\<close>

definition pad_window :: "nat \<Rightarrow> item list \<Rightarrow> item list" where
  "pad_window len xs = replicate (len - length xs) 0 @ drop (length xs - len) xs"

definition eval_instance :: "nat \<Rightarrow> user \<times> item list \<Rightarrow> (user, item list, item list) eval_batch" where
  "eval_instance len us =
     (case us of (u, s) \<Rightarrow> (u, pad_window len (butlast s), pad_window len (tl s)))"

fun chunks :: "nat \<Rightarrow> 'a list \<Rightarrow> 'a list list" where
  "chunks n xs = (if n = 0 \<or> xs = [] then [] else take n xs # chunks n (drop n xs))"

definition make_batch :: "('u, 'x, 'y) eval_batch list \<Rightarrow> ('u list, 'x list, 'y list) eval_batch" where
  "make_batch c = (map fst c, map (fst \<circ> snd) c, map (snd \<circ> snd) c)"

definition prepare_eval_test ::
  "(user \<times> item list) list \<Rightarrow> nat \<Rightarrow> nat
   \<Rightarrow> exc + (user list, item list list, item list list) eval_batch list" where
  "prepare_eval_test data batch_size max_test_len =
     (if batch_size = 0 then Inl ValueError
      else Inr (map make_batch (chunks batch_size (map (eval_instance max_test_len) data))))"

text \<open>\<^verbatim>\<open>train.py\<close> line 65: \<^verbatim>\<open>prepare_eval_test(val_data, batch_size=100, max_test_len=20)\<close>.\<close>

definition val_batches ::
  "(user \<times> item list) list \<Rightarrow> exc + (user list, item list list, item list list) eval_batch list" where
  "val_batches val_data = prepare_eval_test val_data 100 20"

text \<open>The model's batch metrics: per-target outcomes summed over the batch.\<close>

definition batch_metrics :: "('x \<Rightarrow> 'y \<Rightarrow> stats) \<Rightarrow> 'x list \<Rightarrow> 'y list \<Rightarrow> stats" where
  "batch_metrics f xs ys = sum_stats (map2 f xs ys)"

text \<open>The specification's metrics: sums over all targets divided by their number, with
  the division of \<open>evaluate\<close> (an error on no instance, NaN on no target).\<close>

definition macro_metrics ::
  "('x \<Rightarrow> 'y \<Rightarrow> stats) \<Rightarrow> ('u, 'x, 'y) eval_batch list \<Rightarrow> exc + pyfloat \<times> pyfloat" where
  "macro_metrics f insts =
     (if insts = [] then Inl ZeroDivisionError
      else (case sum_stats (map (\<lambda>(u, x, y). f x y) insts) of (th, tn, cnt) \<Rightarrow>
              Inr (np_div th cnt, np_div tn cnt)))"

section \<open>Lemmas\<close>

declare chunks.simps [simp del]

lemma chunks_Nil [simp]: "chunks n [] = []"
  by (simp add: chunks.simps)

lemma chunks_Cons: "0 < n \<Longrightarrow> xs \<noteq> [] \<Longrightarrow> chunks n xs = take n xs # chunks n (drop n xs)"
  by (simp add: chunks.simps)

lemma concat_chunks: "0 < n \<Longrightarrow> concat (chunks n xs) = xs"
proof (induction n xs rule: chunks.induct)
  case (1 n xs)
  then show ?case by (cases "xs = []") (simp_all add: chunks_Cons)
qed

lemma chunks_bounded: "c \<in> set (chunks n xs) \<Longrightarrow> c \<noteq> [] \<and> length c \<le> n"
proof (induction n xs rule: chunks.induct)
  case (1 n xs)
  then show ?case
    by (cases "n = 0 \<or> xs = []") (auto simp: chunks.simps [of n xs])
qed

lemma length_pad_window [simp]: "length (pad_window len xs) = len"
  by (simp add: pad_window_def)

lemma sum_stats_concat:
  "sum_stats (map h (concat cs)) = sum_stats (map (\<lambda>c. sum_stats (map h c)) cs)"
  by (induction cs) simp_all

lemma batch_stats_make_batch:
  "batch_stats (batch_metrics f) (make_batch c) = sum_stats (map (\<lambda>(u, x, y). f x y) c)"
  by (induction c) (auto simp: batch_stats_def batch_metrics_def make_batch_def)

lemma evaluate_batches:
  assumes "\<forall>c \<in> set cs. c \<noteq> []"
  shows "evaluate (total_scorer (batch_metrics f)) (map make_batch cs) = macro_metrics f (concat cs)"
proof -
  have s: "sum_stats (map (batch_stats (batch_metrics f)) (map make_batch cs))
          = sum_stats (map (\<lambda>(u, x, y). f x y) (concat cs))"
    by (simp add: sum_stats_concat batch_stats_make_batch comp_def)
  have "cs = [] \<longleftrightarrow> concat cs = []" using assms by (cases cs) auto
  then show ?thesis
    using s by (simp add: evaluate_total_sum macro_metrics_def split: prod.split)
qed

section \<open>Properties\<close>

text \<open>
  C17. Refinement of the evaluation metrics: on the batches prepared from the validation
  data, \<open>evaluate\<close> returns the specification's macro-average over all targets, so the
  result does not depend on how the targets are grouped into batches.
\<close>

theorem evaluate_grouping_invariant:
  assumes "prepare_eval_test data batch_size max_test_len = Inr batches"
  shows "evaluate (total_scorer (batch_metrics f)) batches
           = macro_metrics f (map (eval_instance max_test_len) data)"
proof -
  from assms have "0 < batch_size"
    and b: "batches = map make_batch (chunks batch_size (map (eval_instance max_test_len) data))"
    by (auto simp: prepare_eval_test_def split: if_splits)
  moreover have "\<forall>c \<in> set (chunks batch_size (map (eval_instance max_test_len) data)). c \<noteq> []"
    using chunks_bounded by blast
  ultimately show ?thesis by (simp add: evaluate_batches concat_chunks)
qed

theorem evaluate_grouping_invariant_witness:
  "evaluate (total_scorer (batch_metrics (\<lambda>x y. (if last y = 3 then 1 else 0, 0, 1))))
      (map make_batch (chunks 1 (map (eval_instance 2) [(7, [1, 2, 3]), (8, [4, 5])])))
   = Inr (Fin (1/2), Fin 0)
   \<and> evaluate (total_scorer (batch_metrics (\<lambda>x y. (if last y = 3 then 1 else 0, 0, 1))))
      (map make_batch (chunks 2 (map (eval_instance 2) [(7, [1, 2, 3]), (8, [4, 5])])))
   = Inr (Fin (1/2), Fin 0)"
proof -
  let ?f = "\<lambda>(x::item list) (y::item list). (if last y = 3 then 1 else 0, 0::real, 1::real)"
  let ?d = "[(7::user, [1, 2, 3]), (8, [4, 5::item])]"
  have m: "macro_metrics ?f (map (eval_instance 2) ?d) = Inr (Fin (1/2), Fin 0)"
    by (simp add: macro_metrics_def eval_instance_def pad_window_def)
  have p1: "prepare_eval_test ?d 1 2 = Inr (map make_batch (chunks 1 (map (eval_instance 2) ?d)))"
    by (simp add: prepare_eval_test_def)
  have p2: "prepare_eval_test ?d 2 2 = Inr (map make_batch (chunks 2 (map (eval_instance 2) ?d)))"
    by (simp add: prepare_eval_test_def)
  show ?thesis
    using evaluate_grouping_invariant [OF p1, of ?f] evaluate_grouping_invariant [OF p2, of ?f] m
    by simp
qed

text \<open>
  C18. The batches of line 65 hold every validation user once and in order, each batch
  has between 1 and 100 users, and every input and target window has length 20.
\<close>

theorem val_batches_shape:
  assumes "val_batches val_data = Inr bs"
  shows "concat (map fst bs) = map fst val_data
         \<and> (\<forall>b \<in> set bs. fst b \<noteq> [] \<and> length (fst b) \<le> 100)
         \<and> (\<forall>b \<in> set bs. \<forall>x \<in> set (fst (snd b)) \<union> set (snd (snd b)). length x = 20)"
proof -
  let ?insts = "map (eval_instance 20) val_data"
  have bs: "bs = map make_batch (chunks 100 ?insts)"
    using assms by (simp add: val_batches_def prepare_eval_test_def)
  have "concat (map fst bs) = map fst (concat (chunks 100 ?insts))"
    by (simp add: bs make_batch_def map_concat comp_def)
  also have "\<dots> = map fst val_data"
    by (simp add: concat_chunks eval_instance_def split_def)
  finally have c: "concat (map fst bs) = map fst val_data" .
  have s: "\<forall>b \<in> set bs. fst b \<noteq> [] \<and> length (fst b) \<le> 100"
    using chunks_bounded [of _ 100 ?insts] by (auto simp: bs make_batch_def)
  have l: "\<forall>b \<in> set bs. \<forall>x \<in> set (fst (snd b)) \<union> set (snd (snd b)). length x = 20"
  proof (intro ballI)
    fix b x assume "b \<in> set bs" and x: "x \<in> set (fst (snd b)) \<union> set (snd (snd b))"
    then obtain c where "c \<in> set (chunks 100 ?insts)" and "b = make_batch c" by (auto simp: bs)
    moreover have "set c \<subseteq> set (concat (chunks 100 ?insts))"
      using \<open>c \<in> set (chunks 100 ?insts)\<close> by auto
    then have "set c \<subseteq> set ?insts" by (simp add: concat_chunks)
    ultimately show "length x = 20" using x by (auto simp: make_batch_def eval_instance_def split: prod.splits)
  qed
  from c s l show ?thesis by blast
qed

theorem val_batches_shape_witness:
  "val_batches [(7, [1, 2, 3]), (8, [4, 5])]
     = Inr (map make_batch (chunks 100 (map (eval_instance 20) [(7, [1, 2, 3]), (8, [4, 5])])))
   \<and> concat (map fst (map make_batch (chunks 100 (map (eval_instance 20) [(7, [1, 2, 3]), (8, [4, 5])])))) = [7, 8]
   \<and> map (\<lambda>b. length (fst b)) (map make_batch (chunks 100 (map (eval_instance 20) [(7, [1, 2, 3]), (8, [4, 5])]))) = [2]"
proof -
  let ?B = "map make_batch (chunks 100 (map (eval_instance 20) [(7::user, [1, 2, 3::item]), (8, [4, 5])]))"
  have h: "val_batches [(7, [1, 2, 3]), (8, [4, 5])] = Inr ?B"
    by (simp add: val_batches_def prepare_eval_test_def)
  have "concat (map fst ?B) = [7, 8]" using val_batches_shape [OF h] by simp
  moreover have "map (\<lambda>b. length (fst b)) ?B = [2]"
    by (simp add: chunks_Cons make_batch_def)
  ultimately show ?thesis using h by simp
qed

end
