(* ===== verification/Sampler.thy ===== *)
theory Sampler
  imports EvalBatches Config
begin

text \<open>
  The negative-sampling pool. \<^verbatim>\<open>train.py\<close> builds it at lines 55--63
  (\<^verbatim>\<open>Sampler(data=train_data, n_items, n_users, batch_size=args.batch_size,
  max_len=args.seq_len, neg_size=args.neg_size, n_workers=args.worker, neg_method='rand')\<close>),
  takes batches with \<^verbatim>\<open>next_batch()\<close> (line 109) and calls \<^verbatim>\<open>close()\<close> (lines
  149, 151). The class itself is in \<^verbatim>\<open>sampler.py\<close>, not among the sources, so its
  behaviour is modelled from the specification (sections 4.2 and 5):
  \<^item> a sample for a user and a cut point is the window of up to \<open>max_len\<close> items before
    the cut, left-padded with \<open>0\<close>, its one-step-ahead positives, and \<open>neg_size\<close>
    negatives per position drawn by rejection against the user's items;
  \<^item> randomness is an explicit stream of draws, consumed left to right; running out of
    draws is the \<^verbatim>\<open>SamplingError\<close> of the specification (\<open>None\<close>);
  \<^item> a worker builds a mini-batch from the first \<^verbatim>\<open>batch_size\<close> of its random picks of
    (user, sequence, cut) (\<open>worker_batch\<close>); \<open>sample_ok\<close> and \<open>batch_ok\<close> are the
    well-formedness of a sample and a batch that the specification's section 5 asks for;
  \<^item> the shared queue is a bounded FIFO: a push blocks when it is full (\<open>None\<close>), a pop
    blocks when it is empty, and after \<^verbatim>\<open>close()\<close> the workers have stopped and
    their pushes are dropped. The fields \<open>produced\<close> and \<open>consumed\<close> record every
    batch pushed and popped; no operation reads them.
\<close>

section \<open>Definitions\<close>

record sampler_config =
  sc_batch_size :: nat
  sc_max_len :: nat
  sc_neg_size :: nat
  sc_n_workers :: nat
  sc_n_items :: nat
  sc_n_users :: nat

text \<open>Lines 55--63: the sampler's configuration from the parsed arguments.\<close>

definition make_sampler_config :: "args \<Rightarrow> nat \<Rightarrow> nat \<Rightarrow> sampler_config" where
  "make_sampler_config a n_items n_users =
     \<lparr>sc_batch_size = nat (batch_size a), sc_max_len = nat (seq_len a),
      sc_neg_size = nat (neg_size a), sc_n_workers = nat (worker a),
      sc_n_items = n_items, sc_n_users = n_users\<rparr>"

record sample =
  s_user :: user
  s_input :: "item list"
  s_pos :: "item list"
  s_neg :: "item list list"

text \<open>Rejection sampling of \<open>k\<close> items outside \<open>avoid\<close> from the draws \<open>ds\<close>.\<close>

fun draw_negs :: "nat \<Rightarrow> item set \<Rightarrow> item list \<Rightarrow> (item list \<times> item list) option" where
  "draw_negs 0 avoid ds = Some ([], ds)"
| "draw_negs (Suc k) avoid [] = None"
| "draw_negs (Suc k) avoid (d # ds) =
     (if d \<in> avoid then draw_negs (Suc k) avoid ds
      else map_option (\<lambda>(ns, r). (d # ns, r)) (draw_negs k avoid ds))"

text \<open>\<open>k\<close> negatives for each of \<open>m\<close> positions, threading the draws.\<close>

fun neg_lists :: "nat \<Rightarrow> nat \<Rightarrow> item set \<Rightarrow> item list \<Rightarrow> (item list list \<times> item list) option" where
  "neg_lists 0 k avoid ds = Some ([], ds)"
| "neg_lists (Suc m) k avoid ds =
     (case draw_negs k avoid ds of
        None \<Rightarrow> None
      | Some (ns, ds') \<Rightarrow> map_option (\<lambda>(nss, r). (ns # nss, r)) (neg_lists m k avoid ds'))"

text \<open>One sample: user \<open>u\<close> with sequence \<open>seq\<close>, cut point \<open>cut_pt\<close>.\<close>

definition sample_user ::
  "sampler_config \<Rightarrow> user \<Rightarrow> item list \<Rightarrow> nat \<Rightarrow> item list \<Rightarrow> (sample \<times> item list) option" where
  "sample_user cfg u seq cut_pt ds =
     (let len = sc_max_len cfg;
          inp = pad_window len (drop (cut_pt - len) (take cut_pt seq));
          pos = pad_window len (drop (cut_pt - len) (take cut_pt (tl seq)))
      in case neg_lists len (sc_neg_size cfg) (set seq) ds of
           None \<Rightarrow> None
         | Some (negs, ds') \<Rightarrow> Some (\<lparr>s_user = u, s_input = inp, s_pos = pos, s_neg = negs\<rparr>, ds'))"

text \<open>A mini-batch: one sample per chosen \<open>(user, sequence, cut)\<close>.\<close>

fun sample_batch ::
  "sampler_config \<Rightarrow> (user \<times> item list \<times> nat) list \<Rightarrow> item list \<Rightarrow> (sample list \<times> item list) option" where
  "sample_batch cfg [] ds = Some ([], ds)"
| "sample_batch cfg ((u, seq, cut_pt) # cs) ds =
     (case sample_user cfg u seq cut_pt ds of
        None \<Rightarrow> None
      | Some (s, ds') \<Rightarrow> map_option (\<lambda>(ss, r). (s # ss, r)) (sample_batch cfg cs ds'))"

record 'b pool =
  queue :: "'b list"
  capacity :: nat
  closed :: bool
  produced :: "'b list"
  consumed :: "'b list"

text \<open>Lines 55--63: a fresh pool; its queue holds \<open>cap\<close> batches.\<close>

definition make_pool :: "nat \<Rightarrow> 'b pool" where
  "make_pool cap = \<lparr>queue = [], capacity = cap, closed = False, produced = [], consumed = []\<rparr>"

text \<open>A worker's \<^verbatim>\<open>queue.put(batch)\<close>: blocks on a full queue; after close the batch is dropped.\<close>

definition pool_push :: "'b \<Rightarrow> 'b pool \<Rightarrow> 'b pool option" where
  "pool_push b p =
     (if closed p then Some p
      else if length (queue p) < capacity p
      then Some (p\<lparr>queue := queue p @ [b], produced := produced p @ [b]\<rparr>)
      else None)"

text \<open>\<^verbatim>\<open>next_batch()\<close>: blocks on an empty queue.\<close>

definition pool_pop :: "'b pool \<Rightarrow> ('b \<times> 'b pool) option" where
  "pool_pop p =
     (case queue p of
        [] \<Rightarrow> None
      | b # q \<Rightarrow> Some (b, p\<lparr>queue := q, consumed := consumed p @ [b]\<rparr>))"

text \<open>\<^verbatim>\<open>close()\<close>: signal the workers to stop and join them.\<close>

definition pool_close :: "'b pool \<Rightarrow> 'b pool" where
  "pool_close p = p\<lparr>closed := True\<rparr>"

inductive pool_step :: "'b pool \<Rightarrow> 'b pool \<Rightarrow> bool" where
  push: "pool_push b p = Some p' \<Longrightarrow> pool_step p p'"
| pop: "pool_pop p = Some (b, p') \<Longrightarrow> pool_step p p'"
| close: "pool_step p (pool_close p)"

inductive pool_reachable :: "nat \<Rightarrow> 'b pool \<Rightarrow> bool" for cap where
  init: "pool_reachable cap (make_pool cap)"
| step: "pool_reachable cap p \<Longrightarrow> pool_step p p' \<Longrightarrow> pool_reachable cap p'"

definition pool_inv :: "'b pool \<Rightarrow> bool" where
  "pool_inv p \<longleftrightarrow> length (queue p) \<le> capacity p \<and> consumed p @ queue p = produced p"

text \<open>The number of draws that rejection sampling would accept.\<close>

abbreviation valid_count :: "item set \<Rightarrow> item list \<Rightarrow> nat" where
  "valid_count avoid ds \<equiv> length (filter (\<lambda>d. d \<notin> avoid) ds)"

text \<open>Example configuration and pool used by the witnesses: windows of two items, one
  negative per position; a pool of capacity two holding one batch.\<close>

definition sampler_example_args :: args where
  "sampler_example_args = default_args\<lparr>seq_len := 2, neg_size := 1\<rparr>"

definition example_pool :: "nat pool" where
  "example_pool = \<lparr>queue = [5], capacity = 2, closed = False, produced = [5], consumed = []\<rparr>"

text \<open>A well-formed sample and mini-batch (specification, section 5): windows of
  \<open>max_len\<close> positions, \<open>neg_size\<close> negatives per position, none equal to the
  non-padding positive there, and \<open>batch_size\<close> samples per batch. A worker builds a
  batch from the first \<open>batch_size\<close> of its random picks of (user, sequence, cut).\<close>

definition sample_ok :: "sampler_config \<Rightarrow> sample \<Rightarrow> bool" where
  "sample_ok cfg s \<longleftrightarrow>
     length (s_input s) = sc_max_len cfg \<and> length (s_pos s) = sc_max_len cfg
     \<and> length (s_neg s) = sc_max_len cfg \<and> list_all (\<lambda>ns. length ns = sc_neg_size cfg) (s_neg s)
     \<and> list_all2 (\<lambda>p ns. \<not> (p \<noteq> 0 \<and> p \<in> set ns)) (s_pos s) (s_neg s)"

definition batch_ok :: "sampler_config \<Rightarrow> sample list \<Rightarrow> bool" where
  "batch_ok cfg ss \<longleftrightarrow> length ss = sc_batch_size cfg \<and> list_all (sample_ok cfg) ss"

definition worker_batch ::
  "sampler_config \<Rightarrow> (user \<times> item list \<times> nat) list \<Rightarrow> item list \<Rightarrow> (sample list \<times> item list) option" where
  "worker_batch cfg picks ds = sample_batch cfg (take (sc_batch_size cfg) picks) ds"

definition worker_example_args :: args where
  "worker_example_args = sampler_example_args\<lparr>batch_size := 1\<rparr>"

section \<open>Lemmas\<close>

lemma draw_negs_take:
  "draw_negs k avoid ds = Some (ns, r) \<Longrightarrow>
     ns = take k (filter (\<lambda>d. d \<notin> avoid) ds) \<and> filter (\<lambda>d. d \<notin> avoid) r = drop k (filter (\<lambda>d. d \<notin> avoid) ds)"
proof (induction k avoid ds arbitrary: ns rule: draw_negs.induct)
  case (1 avoid ds)
  then show ?case by simp
next
  case (2 k avoid)
  then show ?case by simp
next
  case (3 k avoid d ds)
  show ?case
  proof (cases "d \<in> avoid")
    case True
    with 3 show ?thesis by simp
  next
    case False
    with "3.prems" obtain ns' where "draw_negs k avoid ds = Some (ns', r)" "ns = d # ns'"
      by auto
    with "3.IH"(2) [OF False] False show ?thesis by simp
  qed
qed

lemma draw_negs_None: "draw_negs k avoid ds = None \<longleftrightarrow> valid_count avoid ds < k"
  by (induction k avoid ds rule: draw_negs.induct) auto

lemma draw_negs_Some:
  "draw_negs k avoid ds = Some (ns, r) \<Longrightarrow> length ns = k \<and> (\<forall>n \<in> set ns. n \<notin> avoid)"
  using draw_negs_take [of k avoid ds ns r] draw_negs_None [of k avoid ds] by (auto dest: in_set_takeD)

lemma neg_lists_Some:
  "neg_lists m k avoid ds = Some (nss, r) \<Longrightarrow>
     length nss = m \<and> (\<forall>ns \<in> set nss. length ns = k \<and> (\<forall>n \<in> set ns. n \<notin> avoid))"
proof (induction m arbitrary: ds nss)
  case 0
  then show ?case by simp
next
  case (Suc m)
  then obtain ns ds' nss' where d: "draw_negs k avoid ds = Some (ns, ds')"
    and n: "neg_lists m k avoid ds' = Some (nss', r)" and e: "nss = ns # nss'"
    by (auto split: option.splits)
  show ?case using draw_negs_Some [OF d] Suc.IH [OF n] e by simp
qed

lemma neg_lists_nth:
  "neg_lists m k avoid ds = Some (nss, r) \<Longrightarrow> j < m \<Longrightarrow> length (nss ! j) = k \<and> (\<forall>n \<in> set (nss ! j). n \<notin> avoid)"
  using neg_lists_Some [of m k avoid ds nss r] by (metis nth_mem)

lemma set_pad_window: "set (pad_window len xs) \<subseteq> insert 0 (set xs)"
  by (auto simp: pad_window_def dest: in_set_dropD)

lemma sample_user_Some:
  assumes "sample_user cfg u seq c ds = Some (s, r)"
  shows "length (s_input s) = sc_max_len cfg \<and> length (s_pos s) = sc_max_len cfg
         \<and> length (s_neg s) = sc_max_len cfg \<and> (\<forall>ns \<in> set (s_neg s). length ns = sc_neg_size cfg)
         \<and> (\<forall>j < length (s_pos s). s_pos s ! j \<noteq> 0 \<longrightarrow> s_pos s ! j \<notin> set (s_neg s ! j))"
proof -
  let ?len = "sc_max_len cfg"
  let ?pos = "pad_window ?len (drop (c - ?len) (take c (tl seq)))"
  obtain negs where n: "neg_lists ?len (sc_neg_size cfg) (set seq) ds = Some (negs, r)"
    and s: "s = \<lparr>s_user = u, s_input = pad_window ?len (drop (c - ?len) (take c seq)), s_pos = ?pos, s_neg = negs\<rparr>"
    using assms by (auto simp: sample_user_def Let_def split: option.splits)
  have pos_in: "x \<in> set seq" if "x \<in> set ?pos" "x \<noteq> 0" for x
  proof -
    have "x \<in> set (drop (c - ?len) (take c (tl seq)))"
      using set_pad_window [of ?len "drop (c - ?len) (take c (tl seq))"] that by blast
    then have "x \<in> set (tl seq)" by (blast dest: in_set_dropD in_set_takeD)
    then show ?thesis by (cases seq) auto
  qed
  show ?thesis
  proof (intro conjI allI impI)
    fix j assume j: "j < length (s_pos s)" and nz: "s_pos s ! j \<noteq> 0"
    then have "s_pos s ! j \<in> set seq" using pos_in s by (simp add: nth_mem)
    moreover have "\<forall>n \<in> set (negs ! j). n \<notin> set seq" using neg_lists_nth [OF n] j s by simp
    ultimately show "s_pos s ! j \<notin> set (s_neg s ! j)" using s by auto
  qed (use neg_lists_Some [OF n] s in auto)
qed

lemma sample_batch_Some:
  "sample_batch cfg cs ds = Some (ss, r) \<Longrightarrow> length ss = length cs
     \<and> (\<forall>s \<in> set ss. length (s_input s) = sc_max_len cfg \<and> length (s_pos s) = sc_max_len cfg
         \<and> length (s_neg s) = sc_max_len cfg \<and> (\<forall>ns \<in> set (s_neg s). length ns = sc_neg_size cfg)
         \<and> (\<forall>j < length (s_pos s). s_pos s ! j \<noteq> 0 \<longrightarrow> s_pos s ! j \<notin> set (s_neg s ! j)))"
proof (induction cfg cs ds arbitrary: ss rule: sample_batch.induct)
  case (1 cfg ds)
  then show ?case by simp
next
  case (2 cfg u seq c cs ds)
  then obtain s ds' ss' where a: "sample_user cfg u seq c ds = Some (s, ds')"
    and b: "sample_batch cfg cs ds' = Some (ss', r)" and e: "ss = s # ss'"
    by (auto split: option.splits)
  show ?case using sample_user_Some [OF a] "2.IH" [OF a refl b] e by auto
qed

lemma sample_ok_intro:
  assumes "length (s_input s) = sc_max_len cfg" "length (s_pos s) = sc_max_len cfg"
    "length (s_neg s) = sc_max_len cfg" "\<forall>ns \<in> set (s_neg s). length ns = sc_neg_size cfg"
    "\<forall>j < length (s_pos s). s_pos s ! j \<noteq> 0 \<longrightarrow> s_pos s ! j \<notin> set (s_neg s ! j)"
  shows "sample_ok cfg s"
  using assms by (auto simp: sample_ok_def list_all_iff list_all2_conv_all_nth)

lemma worker_batch_ok:
  assumes "sc_batch_size cfg \<le> length picks" and "worker_batch cfg picks ds = Some (ss, r)"
  shows "batch_ok cfg ss"
proof -
  note b = sample_batch_Some [OF assms(2) [unfolded worker_batch_def]]
  have "\<forall>s \<in> set ss. sample_ok cfg s" using b by (blast intro: sample_ok_intro)
  then show ?thesis using b assms(1) by (simp add: batch_ok_def list_all_iff)
qed

lemma pool_step_inv: "pool_step p p' \<Longrightarrow> pool_inv p \<Longrightarrow> pool_inv p'"
  by (induction rule: pool_step.induct)
     (auto simp: pool_inv_def pool_push_def pool_pop_def pool_close_def split: if_splits list.splits)

lemma pool_step_capacity: "pool_step p p' \<Longrightarrow> capacity p' = capacity p"
  by (induction rule: pool_step.induct)
     (auto simp: pool_push_def pool_pop_def pool_close_def split: if_splits list.splits)

lemma pool_reachable_inv: "pool_reachable cap p \<Longrightarrow> pool_inv p \<and> capacity p = cap"
  by (induction rule: pool_reachable.induct)
     (auto simp: pool_inv_def make_pool_def dest: pool_step_inv pool_step_capacity)

lemma nth_pad_window:
  "length xs \<le> len \<Longrightarrow> j < len \<Longrightarrow>
     pad_window len xs ! j = (if j < len - length xs then 0 else xs ! (j - (len - length xs)))"
  by (simp add: pad_window_def nth_append)

lemma window_nth:
  assumes "c \<le> length zs" and "j < len"
  shows "pad_window len (drop (c - len) (take c zs)) ! j = (if j < len - c then 0 else zs ! (c + j - len))"
proof -
  have l: "length (drop (c - len) (take c zs)) = min c len" using assms(1) by simp
  show ?thesis
  proof (cases "j < len - c")
    case True
    then show ?thesis using nth_pad_window [of "drop (c - len) (take c zs)" len j] l assms(2) by simp
  next
    case False
    define k where "k = j - (len - min c len)"
    have k: "k < min c len" "c - len + k = c + j - len" "c + j - len < c"
      using assms(2) False by (auto simp: k_def)
    have "drop (c - len) (take c zs) ! k = zs ! (c + j - len)"
      using k assms(1) by (simp add: nth_take)
    moreover have "pad_window len (drop (c - len) (take c zs)) ! j = drop (c - len) (take c zs) ! k"
    proof -
      have "length (drop (c - len) (take c zs)) \<le> len" "\<not> j < len - length (drop (c - len) (take c zs))"
        using l False by simp_all
      from nth_pad_window [OF this(1) assms(2)] this(2)
      have "pad_window len (drop (c - len) (take c zs)) ! j
            = drop (c - len) (take c zs) ! (j - (len - length (drop (c - len) (take c zs))))"
        by (simp only: if_False)
      then show ?thesis by (simp only: l k_def)
    qed
    ultimately show ?thesis using False by simp
  qed
qed

lemma neg_lists_concat:
  "neg_lists m k avoid ds = Some (nss, r) \<Longrightarrow>
     concat nss = take (m * k) (filter (\<lambda>d. d \<notin> avoid) ds)
     \<and> filter (\<lambda>d. d \<notin> avoid) r = drop (m * k) (filter (\<lambda>d. d \<notin> avoid) ds)"
proof (induction m arbitrary: ds nss)
  case 0
  then show ?case by simp
next
  case (Suc m)
  then obtain ns ds' nss' where d: "draw_negs k avoid ds = Some (ns, ds')"
    and n: "neg_lists m k avoid ds' = Some (nss', r)" and e: "nss = ns # nss'"
    by (auto split: option.splits)
  have l: "length ns = k" using draw_negs_Some [OF d] by simp
  show ?case using draw_negs_take [OF d] Suc.IH [OF n] e l
    by (simp add: take_add drop_drop add.commute)
qed

lemma neg_lists_None: "neg_lists m k avoid ds = None \<longleftrightarrow> valid_count avoid ds < m * k"
proof (induction m arbitrary: ds)
  case 0
  then show ?case by simp
next
  case (Suc m)
  show ?case
  proof (cases "draw_negs k avoid ds")
    case None
    then show ?thesis using draw_negs_None [of k avoid ds] by simp
  next
    case (Some x)
    then obtain ns r where d: "draw_negs k avoid ds = Some (ns, r)" by (cases x) auto
    have "valid_count avoid r = valid_count avoid ds - k" "k \<le> valid_count avoid ds"
      using draw_negs_take [OF d] draw_negs_None [of k avoid ds] d by simp_all
    then show ?thesis using d Suc.IH [of r] by (auto split: option.splits)
  qed
qed

lemma example_pool_reachable: "pool_reachable 2 example_pool"
proof -
  have "pool_push 5 (make_pool 2) = Some example_pool"
    by (simp add: pool_push_def make_pool_def example_pool_def)
  then show ?thesis by (blast intro: pool_reachable.init pool_reachable.step pool_step.push)
qed

section \<open>Properties\<close>

text \<open>
  C19. Shape of a mini-batch built with the configuration of lines 55--63: one sample
  per chosen user, input, positive and negative windows of \<^verbatim>\<open>seq_len\<close> positions,
  and \<^verbatim>\<open>neg_size\<close> negatives at each position.
\<close>

theorem sampler_batch_shape:
  assumes "sample_batch (make_sampler_config a n_items n_users) cs ds = Some (ss, r)"
  shows "length ss = length cs
     \<and> (\<forall>s \<in> set ss. length (s_input s) = nat (seq_len a) \<and> length (s_pos s) = nat (seq_len a)
         \<and> length (s_neg s) = nat (seq_len a) \<and> (\<forall>ns \<in> set (s_neg s). length ns = nat (neg_size a)))"
  using sample_batch_Some [OF assms] by (simp add: make_sampler_config_def)

theorem sampler_batch_shape_witness:
  "sample_batch (make_sampler_config sampler_example_args 10 1) [(1, [3, 4, 5], 2)] [3, 7, 4, 8]
     = Some ([\<lparr>s_user = 1, s_input = [3, 4], s_pos = [4, 5], s_neg = [[7], [8]]\<rparr>], [])
   \<and> length [3, 4 :: item] = nat (seq_len sampler_example_args)
   \<and> length [[7], [8 :: item]] = nat (seq_len sampler_example_args)
   \<and> length [7 :: item] = nat (neg_size sampler_example_args)"
proof -
  have e: "sample_batch (make_sampler_config sampler_example_args 10 1) [(1, [3, 4, 5], 2)] [3, 7, 4, 8]
     = Some ([\<lparr>s_user = 1, s_input = [3, 4], s_pos = [4, 5], s_neg = [[7], [8]]\<rparr>], [])"
    by (simp add: sample_user_def make_sampler_config_def sampler_example_args_def default_args_def
                  pad_window_def numeral_eq_Suc)
  show ?thesis using e sampler_batch_shape [OF e]
    by (simp add: sampler_example_args_def default_args_def)
qed

text \<open>
  C20. A negative never coincides with the positive target at its position: every
  non-padding positive is an item of the user's sequence, and every negative is drawn
  outside that sequence.
\<close>

theorem negatives_avoid_positives:
  assumes "sample_batch (make_sampler_config a n_items n_users) cs ds = Some (ss, r)"
  shows "\<forall>s \<in> set ss. \<forall>j < length (s_pos s). s_pos s ! j \<noteq> 0 \<longrightarrow> s_pos s ! j \<notin> set (s_neg s ! j)"
  using sample_batch_Some [OF assms] by simp

theorem negatives_avoid_positives_witness:
  "sample_batch (make_sampler_config sampler_example_args 10 1) [(1, [3, 4, 5], 2), (2, [7, 8], 1)] [3, 7, 4, 8, 7, 3, 9]
     = Some ([\<lparr>s_user = 1, s_input = [3, 4], s_pos = [4, 5], s_neg = [[7], [8]]\<rparr>,
              \<lparr>s_user = 2, s_input = [0, 7], s_pos = [0, 8], s_neg = [[3], [9]]\<rparr>], [])
   \<and> (8 :: item) \<notin> set [9]"
proof -
  have e: "sample_batch (make_sampler_config sampler_example_args 10 1) [(1, [3, 4, 5], 2), (2, [7, 8], 1)] [3, 7, 4, 8, 7, 3, 9]
     = Some ([\<lparr>s_user = 1, s_input = [3, 4], s_pos = [4, 5], s_neg = [[7], [8]]\<rparr>,
              \<lparr>s_user = 2, s_input = [0, 7], s_pos = [0, 8], s_neg = [[3], [9]]\<rparr>], [])"
    by (simp add: sample_user_def make_sampler_config_def sampler_example_args_def default_args_def
                  pad_window_def numeral_eq_Suc)
  show ?thesis using e negatives_avoid_positives [OF e] by simp
qed

text \<open>
  C21. In every reachable state of the pool the queue holds at most its capacity, and
  the batches delivered by \<^verbatim>\<open>next_batch\<close> followed by those still queued are
  exactly the batches the workers produced, in order: none is lost, duplicated or
  reordered.
\<close>

theorem queue_bounded_fifo:
  assumes "pool_reachable cap p"
  shows "length (queue p) \<le> cap \<and> consumed p @ queue p = produced p"
  using pool_reachable_inv [OF assms] by (auto simp: pool_inv_def)

theorem queue_bounded_fifo_witness:
  "pool_reachable 2 example_pool \<and> length [5 :: nat] \<le> 2 \<and> [] @ [5 :: nat] = [5]"
  using example_pool_reachable queue_bounded_fifo [OF example_pool_reachable]
  by (simp add: example_pool_def)

text \<open>
  C25. The positive targets are the one-step-ahead items aligned with the input window:
  for a cut point inside the sequence, a padding position holds \<open>0\<close> in both windows,
  and a position whose input is the item at index \<open>i\<close> of the sequence has the item at
  index \<open>i + 1\<close> as its positive.
\<close>

theorem positives_next_items:
  assumes "sample_user (make_sampler_config a n_items n_users) u seq c ds = Some (s, r)"
    and "c < length seq" and "j < nat (seq_len a)"
  shows "(j < nat (seq_len a) - c \<longrightarrow> s_input s ! j = 0 \<and> s_pos s ! j = 0)
       \<and> (nat (seq_len a) - c \<le> j \<longrightarrow>
            s_input s ! j = seq ! (c + j - nat (seq_len a)) \<and> s_pos s ! j = seq ! Suc (c + j - nat (seq_len a)))"
proof -
  let ?L = "nat (seq_len a)"
  have s: "s_input s = pad_window ?L (drop (c - ?L) (take c seq))"
     "s_pos s = pad_window ?L (drop (c - ?L) (take c (tl seq)))"
    using assms(1) by (auto simp: sample_user_def make_sampler_config_def Let_def split: option.splits)
  have i: "s_input s ! j = (if j < ?L - c then 0 else seq ! (c + j - ?L))"
    using window_nth [of c seq j ?L] assms(2,3) s(1) by simp
  have p: "s_pos s ! j = (if j < ?L - c then 0 else tl seq ! (c + j - ?L))"
    using window_nth [of c "tl seq" j ?L] assms(2,3) s(2) by simp
  have "\<not> j < ?L - c \<Longrightarrow> tl seq ! (c + j - ?L) = seq ! Suc (c + j - ?L)"
    using assms(2,3) by (simp add: nth_tl)
  then show ?thesis using i p by auto
qed

theorem positives_next_items_witness:
  "sample_user (make_sampler_config sampler_example_args 10 1) 2 [7, 8] 1 [7, 3, 9]
     = Some (\<lparr>s_user = 2, s_input = [0, 7], s_pos = [0, 8], s_neg = [[3], [9]]\<rparr>, [])
   \<and> [0, 7 :: item] ! 1 = [7, 8] ! 0 \<and> [0, 8 :: item] ! 1 = [7, 8] ! 1 \<and> [0, 8 :: item] ! 0 = 0"
proof -
  have e: "sample_user (make_sampler_config sampler_example_args 10 1) 2 [7, 8] 1 [7, 3, 9]
     = Some (\<lparr>s_user = 2, s_input = [0, 7], s_pos = [0, 8], s_neg = [[3], [9]]\<rparr>, [])"
    by (simp add: sample_user_def make_sampler_config_def sampler_example_args_def default_args_def
                  pad_window_def numeral_eq_Suc)
  have L: "nat (seq_len sampler_example_args) = 2" by (simp add: sampler_example_args_def default_args_def)
  show ?thesis using e positives_next_items [OF e, of 0] positives_next_items [OF e, of 1] L by simp
qed

text \<open>
  C26. Rejection sampling is equivalent to a reference definition: the negatives of a
  sample, read position after position, are exactly the first \<open>seq_len * neg_size\<close>
  draws outside the user's sequence, and sampling fails exactly when the draws hold
  fewer of them.
\<close>

theorem negatives_first_valid_draws:
  "map_option (concat \<circ> s_neg \<circ> fst) (sample_user (make_sampler_config a n_items n_users) u seq c ds)
     = (if nat (seq_len a) * nat (neg_size a) \<le> length (filter (\<lambda>d. d \<notin> set seq) ds)
        then Some (take (nat (seq_len a) * nat (neg_size a)) (filter (\<lambda>d. d \<notin> set seq) ds))
        else None)"
proof (cases "neg_lists (nat (seq_len a)) (nat (neg_size a)) (set seq) ds")
  case None
  moreover have "valid_count (set seq) ds < nat (seq_len a) * nat (neg_size a)"
    using None neg_lists_None by blast
  ultimately show ?thesis by (simp add: sample_user_def make_sampler_config_def Let_def)
next
  case (Some x)
  then obtain nss r where n: "neg_lists (nat (seq_len a)) (nat (neg_size a)) (set seq) ds = Some (nss, r)"
    by (cases x) auto
  then have "\<not> valid_count (set seq) ds < nat (seq_len a) * nat (neg_size a)"
    using neg_lists_None by (metis option.distinct(1))
  then show ?thesis using n neg_lists_concat [OF n]
    by (simp add: sample_user_def make_sampler_config_def Let_def)
qed

end
