(* ===== verification/Spec2Isabelle.thy ===== *)
theory Spec2Isabelle
  imports Epochs Logging EvalBatches Sampler "HOL-Library.Stream"
begin

text \<open>
  \<^bold>\<open>A verification library for the training script of the sequential recommender\<close>
  (\<^verbatim>\<open>src/AutoInt/sequentialRec/neural/train.py\<close>, the only source file of the
  repository).

  \<^bold>\<open>The program.\<close> The script parses its configuration (lines 18--47), loads the
  data, starts a pool of negative-sampling workers (\<^verbatim>\<open>Sampler\<close>, lines 55--63),
  prepares validation batches (\<^verbatim>\<open>prepare_eval_test\<close>, line 65), names a checkpoint
  directory (line 67), builds the model (line 73), creates the directory if absent
  (lines 155--156) and runs \<^verbatim>\<open>main()\<close> (lines 94--152): a \<^verbatim>\<open>while True\<close> loop
  that takes a batch from the sampler, makes one optimiser step, logs every
  \<^verbatim>\<open>log_interval\<close> steps, and every \<^verbatim>\<open>eval_interval\<close> steps calls
  \<^verbatim>\<open>evaluate\<close> (lines 77--92) on the validation batches, halves the learning rate on
  a non-improving Hit@K (floor \<open>1e-6\<close>), saves a checkpoint on an improving one, and
  stops after three non-improvements in a row. Any \<^verbatim>\<open>Exception\<close> is printed, the
  sampler closed and the process exits with status 1. The sampler, the data loader,
  \<^verbatim>\<open>prepare_eval_test\<close> and the model live in modules (\<^verbatim>\<open>sampler.py\<close>,
  \<^verbatim>\<open>utils.py\<close>, \<^verbatim>\<open>model.py\<close>) that are not part of the repository's sources;
  they enter the model as interfaces, or are modelled from the specification.

  \<^bold>\<open>Theories.\<close>
  \<^item> \<open>Prelude\<close>: Python exceptions (\<open>exc\<close>, with \<open>KeyboardInterrupt\<close> outside
    \<open>Exception\<close>), the raising primitives \<open>py_mod\<close>, \<open>py_div\<close>, \<open>py_index\<close>,
    numpy floats \<open>pyfloat\<close> (finite, NaN, \<open>\<plusminus>\<infinity>\<close>) with numpy division
    \<open>np_div\<close> and Python's \<open><=\<close> (false on NaN) as the \<open>ord\<close> instance, and the
    exception-state type \<open>('a, 's) exn\<close> with \<open>bindE\<close>, in which a statement
    sequence keeps the effects made before a raise.
  \<^item> \<open>Config\<close>: the record \<open>args\<close> and \<open>default_args\<close> (lines 18--47),
    \<open>checkpoint_dir\<close> (line 67, Python \<open>'_'.join\<close> as \<open>py_join\<close>, \<open>str\<close> of an
    int as \<open>int_str\<close>, \<open>str\<close> of a float a parameter), \<open>os_mkdir\<close> and
    \<open>setup_checkpoint_dir\<close> (lines 155--156, the file system as a set of names).
    C14: the name splits back into its seven components; C15: moving an \<open>_\<close> between
    data and model name keeps the directory (a collision); C16: the guarded setup never
    raises and is idempotent.
  \<^item> \<open>Evaluation\<close>: \<open>evaluate_acc\<close> (the loop of lines 81--87) and \<open>evaluate\<close>
    (lines 77--92) over a scorer interface (one \<^verbatim>\<open>sess.run\<close> per batch, which may
    raise). On an empty source the division of line 89 is Python's and raises
    \<^verbatim>\<open>ZeroDivisionError\<close>; after one batch the sums are numpy scalars and the
    division is numpy's, NaN on a zero count. C11: closed form; C12: NaN, or finite
    metrics with \<open>0 \<le> NDCG \<le> Hit \<le> 1\<close>; C13: first-error propagation.
  \<^item> \<open>Controller\<close>: the state of \<^verbatim>\<open>main()\<close> as the record \<open>train_state\<close>
    (global \<open>lr\<close>, \<open>all_val_hit\<close> as a list of \<open>pyfloat\<close>, \<open>early_stop_cn\<close>,
    \<open>step_count\<close>, \<open>train_loss_l\<close>, model parameters, sampler handle, checkpoint
    file, standard output, loop status, exit code) and the interface \<open>ctrl_env\<close>
    (sampler \<open>next_batch\<close> and \<open>close\<close>, optimiser step, evaluation scorer,
    validation batches). Each statement group of the loop body is one definition
    (\<open>fetch_batch\<close> line 109, \<open>train_on_batch\<close> 110--116, \<open>log_check\<close> 117--124,
    \<open>eval_check\<close> 126--146, \<open>decide_eval\<close> 135--145), composed by
    \<open>train_iteration\<close> with \<open>bindE\<close>; \<open>ctrl_step\<close> adds the
    \<^verbatim>\<open>try\<close>/\<^verbatim>\<open>except\<close> (\<open>on_exception\<close>, lines 147--150) and the exit after
    \<^verbatim>\<open>break\<close> (\<open>finish\<close>, 151--152). The loop is \<open>run\<close> (fuel: \<open>n\<close> turns)
    and \<open>main_loop\<close> (\<^theory_text>\<open>partial_function (option)\<close>: \<open>None\<close> when it never
    stops); \<open>reachable\<close> is the inductive set of states reached from
    \<open>init_state\<close>. The abstract specification of the evaluation decisions reads the
    recorded Hit@K history: \<open>nonimp_run\<close> (trailing non-improvements),
    \<open>nonimp_count\<close>, \<open>improved\<close>, \<open>lr_after\<close> (the rate after \<open>k\<close> decays) and
    \<open>eval_decision\<close> on the projection \<open>dproj\<close>. The invariant \<open>ctrl_inv\<close> ties
    the state to that specification and \<open>exit_ok\<close> describes each way out of the loop;
    both are proved for every reachable state by rule induction, through one lemma per
    statement group (\<open>body_outcome\<close> of \<open>train_iteration\<close>). C1--C10.
  \<^item> \<open>Convergence\<close>: termination of \<^verbatim>\<open>main()\<close> for a model whose validation
    result no longer changes, by counting evaluation periods (\<open>cycle\<close>, \<open>periods\<close>)
    and the invariant \<open>ctrl_inv\<close>; \<open>main_loop_of_run\<close> turns a stopped fuelled run
    into the result of the \<^theory_text>\<open>partial_function\<close>. C22: such a run returns,
    converged, within \<open>4 * eval_interval\<close> steps, provided the result is not NaN;
    C23: a constant NaN result (validation batches without a target) keeps the loop
    running for ever (\<open>nan_periods\<close>); C29: the learning rate of every reachable state
    lies between \<open>min(lr, 1e-6)\<close> and \<open>max(lr, 1e-6)\<close>.
  \<^item> \<open>Epochs\<close>: \<open>run_cong\<close> and \<open>main_loop_cong\<close>, with which C32 shows that
    \<^verbatim>\<open>main()\<close> never reads \<^verbatim>\<open>--epochs\<close>.
  \<^item> \<open>Logging\<close>: the loss report of lines 110--124. The invariant \<open>log_inv\<close> (the
    running sum is the constant loss times the steps since the last report, and every
    printed loss line is right) holds in every reachable state; the statements after
    the report are \<open>quiet\<close> (they touch neither the sum nor the counter). C24.
    The invariant \<open>eval_log_inv\<close> ties the printed validation lines of lines 126--131
    to the recorded history (C28). \<open>ctrl_step_preserve\<close> reduces any invariant of a
    loop turn to one fact per statement group.
  \<^item> \<open>EvalBatches\<close>: \<^verbatim>\<open>prepare_eval_test\<close> (called at line 65; its code is in
    \<^verbatim>\<open>utils.py\<close>, so it is modelled from the specification): each user's window of
    the last items, left-padded with \<open>0\<close> by \<open>pad_window\<close>, grouped into batches by
    \<open>chunks\<close>; \<open>batch_metrics\<close> is the model's per-batch sums of Hit and NDCG.
    C17: the metrics \<open>evaluate\<close> returns are the macro averages over all targets
    whatever the batch size; C18: the batches of line 65 hold every user once, in
    order, in batches of at most 100 with windows of 20.
  \<^item> \<open>Sampler\<close>: the sampler's configuration as built at lines 55--63
    (\<open>make_sampler_config\<close>, \<open>make_pool\<close>) and, from the specification, its
    behaviour: \<open>sample_user\<close> and \<open>sample_batch\<close> over an explicit stream of random
    draws, negatives by rejection (\<open>draw_negs\<close>, \<open>neg_lists\<close>), the worker's
    \<open>worker_batch\<close>, and the shared queue as a bounded FIFO with \<open>pool_push\<close>,
    \<open>pool_pop\<close>, \<open>pool_close\<close>, the steps of the inductive relation \<open>pool_step\<close>;
    any interleaving of workers and the consumer is a sequence of steps,
    \<open>pool_reachable\<close> the states it reaches. C19: batch shape; C20: negatives
    distinct from the positive at their position; C21: the FIFO and capacity invariant;
    C25: the positives are the one-step-ahead items of the input window; C26
    (equivalence with a reference definition): the negatives are exactly the first
    valid draws, and sampling fails exactly when there are too few.
  \<^item> This theory wires the components together: \<open>wire\<close> gives the controller the
    pool as its sampler (\<open>pool_next\<close>: pop, or let a worker push from its stream of
    batches when the queue is empty; \<open>handle_close\<close>: \<^verbatim>\<open>close()\<close>), as lines
    55--63, 109 and 149--151 do. \<open>ctrl_step_sampler\<close> says how one loop turn can move
    the sampler handle (a pop, or a close on a turn that leaves the loop), and the
    invariant \<open>prog_inv\<close> carries the pool's reachability and openness through the
    controller's run. C27: the composed program keeps the pool bounded and FIFO and
    closes it on every \<^verbatim>\<open>Exception\<close> or converged exit. C30: when the workers
    build their batches with the configuration of lines 55--63 (\<open>worker_batch\<close>),
    every batch trained on has the shape that \<^verbatim>\<open>--batch_size\<close>,
    \<^verbatim>\<open>--seq_len\<close> and \<^verbatim>\<open>--neg_size\<close> ask for (\<open>args_batch_ok\<close>); the
    invariant \<open>handle_ok\<close> covers the batches produced, queued and still to come and is
    carried through a loop turn by \<open>wired_handle_inv\<close>. C31: an empty validation set
    (line 65 on no users) makes \<^verbatim>\<open>main()\<close> fail at step \<^verbatim>\<open>eval_interval\<close> with
    \<^verbatim>\<open>ZeroDivisionError\<close>, exit status 1 and the sampler closed. C33: a
    \<^verbatim>\<open>KeyboardInterrupt\<close> ends the wired program with the pool still open (the
    statuses that keep it open are \<open>kept_open\<close>).

  \<^bold>\<open>Results.\<close> The early-stop counter, the learning rate and the existence of a
  checkpoint are functions of the Hit@K history (refinement, C2, C3, C5), and the rate
  has the closed form \<open>max(lr / 2^k, 1e-6)\<close> after \<open>k \<ge> 1\<close> non-improvements (C4);
  the run has converged exactly after three consecutive non-improvements (C1); every
  exit through \<open>Exception\<close> or convergence closes the sampler and sets the exit code
  (C6); the \<open>[-2]\<close> index never fails (C8). Findings, each a theorem: a rate below
  \<open>1e-6\<close> is raised by the "decay" (C4); \<open>KeyboardInterrupt\<close> bypasses the cleanup
  (C7); alternating validation results keep the loop running for ever (C9, as the
  specification's open question says); \<^verbatim>\<open>--log_interval 0\<close> fails at the first step
  (C10); validation batches without a target give NaN, not an exception, and then every
  evaluation counts as an improvement and the loop never stops (C12, C23); two
  configurations can share a checkpoint directory (C15); \<^verbatim>\<open>--epochs\<close> has no
  effect (C32); with the pool wired in, Ctrl-C leaves the workers running (C33).

  \<^bold>\<open>Fuel and bounds.\<close> Python ints are \<open>int\<close> (no overflow); finite floats are
  idealised as \<open>real\<close> (no rounding); NaN and the infinities are the other values of
  \<open>pyfloat\<close>, produced only by the divisions of \<open>evaluate\<close> (the loss sum and the
  learning rate stay finite in the model). Concrete runs use the example environment
  \<open>toy_env\<close> with \<open>toy_args\<close> (log and evaluate every step), so a few turns of
  \<open>run\<close> cover several evaluations; termination claims are about \<open>main_loop\<close>
  itself: \<open>main_loop_run\<close> and \<open>main_loop_of_run\<close> relate its result to the
  fuelled \<open>run\<close> in both directions, and C22 uses the fuel \<open>4 * eval_interval\<close>,
  enough because each evaluation period of \<open>eval_interval\<close> steps records one result
  and four equal non-NaN results force three non-improvements.

  \<^bold>\<open>Not modelled.\<close> Wall-clock time and the ms/batch figure; the contents of
  \<^verbatim>\<open>str\<close> on floats; the model's arithmetic (an opaque optimiser step and scorer,
  whose statistics are reals: a NaN loss or metric coming out of TensorFlow is not
  represented); the data loader \<^verbatim>\<open>data_generator\<close> (its code is in \<^verbatim>\<open>utils.py\<close>,
  not in the repository, and the specification gives its train/validation/test split
  only as an example, so a model of it would be invented); \<^verbatim>\<open>argparse\<close>, the
  TensorFlow session and the construction of \<^verbatim>\<open>NeuralSeqRecommender\<close> (library
  calls, lines 48--53 and 73--76), of which only the parsed defaults are modelled;
  \<^verbatim>\<open>os.mkdir\<close> failures other than an existing name; failures of
  \<^verbatim>\<open>saver.save\<close> (line 141) and of \<^verbatim>\<open>close()\<close> (lines 149, 151), which the
  model treats as total (a save is the assignment of the checkpoint field); negative
  sizes passed to \<^verbatim>\<open>Sampler\<close> (\<open>make_sampler_config\<close> clamps them to \<open>0\<close> with
  \<open>nat\<close>, since the behaviour of \<^verbatim>\<open>sampler.py\<close> on them is not specified); the sampler's threads and
  random number generator beyond the order of queue operations and the stream of draws
  (the range of the draws is not constrained, so the bounds of item ids are not
  claimed); the workers' batches are an infinite stream supplied to \<open>wire\<close>, each of
  them the result of a \<open>worker_batch\<close> call (C30), rather than computed from an
  explicit stream of random picks and draws inside the composition; the capacity of
  the pool's queue is a parameter of \<open>make_pool\<close>, since \<^verbatim>\<open>Sampler\<close>'s queue size
  is not among the arguments of lines 55--63. The validation batches and the scorer of
  the wired program are parameters (\<open>val_data\<close>, \<open>eval_op\<close>); \<open>EvalBatches\<close> and
  \<open>Evaluation\<close> prove what they compute.
\<close>

section \<open>The composed program\<close>

text \<open>
  The sampler handle of the wired program is the pool with the stream of batches its
  workers go on producing. \<open>pool_next\<close> is \<^verbatim>\<open>next_batch()\<close> seen from the
  consumer: the oldest queued batch, or, on an empty queue, the batch a worker pushes
  first. An empty closed pool would block for ever, and so would a full one whose
  queue is empty (capacity \<open>0\<close>); the model returns an error there. The pool of a
  running controller is open (\<open>prog_inv\<close>).
\<close>

type_synonym 'b handle = "'b pool \<times> 'b stream"

definition pool_next :: "'b handle \<Rightarrow> exc + ('b \<times> 'b handle)" where
  "pool_next h =
     (case h of (p, ws) \<Rightarrow>
        (case pool_pop p of
           Some (b, p') \<Rightarrow> Inr (b, (p', ws))
         | None \<Rightarrow>
             (case pool_push (shd ws) p of
                None \<Rightarrow> Inl (LibraryError ''queue.Full'')
              | Some p1 \<Rightarrow>
                  (case pool_pop p1 of
                     None \<Rightarrow> Inl (LibraryError ''queue.Empty'')
                   | Some (b, p') \<Rightarrow> Inr (b, (p', stl ws))))))"

definition handle_close :: "'b handle \<Rightarrow> 'b handle" where
  "handle_close h = (pool_close (fst h), snd h)"

definition wire :: "('p, 'b, 'q, 'u, 'x, 'y) ctrl_env \<Rightarrow> ('p, 'b, 'b handle, 'u, 'x, 'y) ctrl_env" where
  "wire env =
     \<lparr>next_batch = pool_next, close_sampler = handle_close, train_op = train_op env,
      eval_op = eval_op env, val_data = val_data env\<rparr>"

text \<open>The statuses in which the controller has not closed its sampler: still running, or
  killed by an exception outside \<^verbatim>\<open>Exception\<close> (lines 147--150 do not run).\<close>

fun kept_open :: "status \<Rightarrow> bool" where
  "kept_open Running = True"
| "kept_open (Aborted e) = True"
| "kept_open _ = False"

definition prog_inv :: "nat \<Rightarrow> ('p, 'b handle) train_state \<Rightarrow> bool" where
  "prog_inv cap st \<longleftrightarrow>
     pool_reachable cap (fst (sampler st)) \<and> (kept_open (status st) \<longrightarrow> \<not> closed (fst (sampler st)))"

text \<open>How one turn of the loop can move the sampler handle.\<close>

definition sampler_moves :: "('p, 'b, 'q, 'u, 'x, 'y) ctrl_env \<Rightarrow> 'q \<Rightarrow> 'q \<Rightarrow> bool \<Rightarrow> bool" where
  "sampler_moves env q q' running \<longleftrightarrow>
     q' = q \<or> (\<exists>b. next_batch env q = Inr (b, q'))
     \<or> (\<not> running \<and> (q' = close_sampler env q
                        \<or> (\<exists>b q1. next_batch env q = Inr (b, q1) \<and> q' = close_sampler env q1)))"

text \<open>Example environments of the witnesses: an optimiser fed with sample lists, and one
  whose validation set is empty.\<close>

definition trainer_env :: "(nat, sample list, bool, unit, unit, unit) ctrl_env" where
  "trainer_env =
     \<lparr>next_batch = (\<lambda>q. Inr ([], q)), close_sampler = (\<lambda>q. q), train_op = (\<lambda>p b l d. Inr (Suc p, 1)),
      eval_op = (\<lambda>p x y d. Inr (1 / 10, 0, 1)), val_data = [((), (), ())]\<rparr>"

definition kbi_train_env :: "(nat, unit, bool, unit, unit, unit) ctrl_env" where
  "kbi_train_env = (toy_env (\<lambda>_. 0))\<lparr>train_op := (\<lambda>p b l d. Inl KeyboardInterrupt)\<rparr>"

definition empty_val_env :: "(nat, unit, bool, user list, item list list, item list list) ctrl_env" where
  "empty_val_env =
     \<lparr>next_batch = (\<lambda>q. Inr ((), q)), close_sampler = (\<lambda>q. True), train_op = (\<lambda>p b l d. Inr (Suc p, 1)),
      eval_op = (\<lambda>p x y d. Inr (0, 0, 1)), val_data = []\<rparr>"

text \<open>The mini-batch the command line asks for: \<^verbatim>\<open>--batch_size\<close> samples, each
  with input, positive and negative windows of \<^verbatim>\<open>--seq_len\<close> positions,
  \<^verbatim>\<open>--neg_size\<close> negatives per position, none equal to the non-padding positive
  there (specification, section 5).\<close>

definition args_batch_ok :: "args \<Rightarrow> sample list \<Rightarrow> bool" where
  "args_batch_ok a b \<longleftrightarrow> length b = nat (batch_size a)
     \<and> list_all (\<lambda>s. length (s_input s) = nat (seq_len a) \<and> length (s_pos s) = nat (seq_len a)
                   \<and> length (s_neg s) = nat (seq_len a) \<and> list_all (\<lambda>ns. length ns = nat (neg_size a)) (s_neg s)
                   \<and> list_all2 (\<lambda>p ns. \<not> (p \<noteq> 0 \<and> p \<in> set ns)) (s_pos s) (s_neg s)) b"

text \<open>Every batch the pool has produced or holds, and every batch its workers will
  produce, satisfies \<open>P\<close>.\<close>

definition handle_ok :: "('b \<Rightarrow> bool) \<Rightarrow> 'b handle \<Rightarrow> bool" where
  "handle_ok P h \<longleftrightarrow> list_all P (produced (fst h)) \<and> list_all P (queue (fst h)) \<and> (\<forall>b \<in> sset (snd h). P b)"

section \<open>Lemmas of the composition\<close>

lemma train_on_batch_sampler: "train_on_batch a env b st = Inr (u, st') \<Longrightarrow> sampler st' = sampler st"
  by (auto simp: train_on_batch_def split: sum.splits prod.splits)

lemma log_check_sampler: "log_check a st = Inr (u, st') \<Longrightarrow> sampler st' = sampler st"
  by (auto simp: log_check_def split: sum.splits if_splits)

lemma fetch_batch_sampler:
  "fetch_batch env st = Inr (b, st') \<Longrightarrow> next_batch env (sampler st) = Inr (b, sampler st')"
  "fetch_batch env st = Inl (e, st') \<Longrightarrow> st' = st"
  by (auto simp: fetch_batch_def split: sum.splits prod.splits)

lemma eval_check_sampler:
  "eval_check a env st = Inr (brk, st') \<Longrightarrow> sampler st' = sampler st"
  "eval_check a env st = Inl (e, st') \<Longrightarrow> sampler st' = sampler st"
  by (auto simp: eval_check_def decide_eval_def Let_def split: sum.splits if_splits)

lemma on_exception_sampler:
  "sampler (on_exception env e st) = (if is_Exception e then close_sampler env (sampler st) else sampler st)"
  by (simp add: on_exception_def)

lemma ctrl_step_sampler:
  "sampler_moves env (sampler st) (sampler (ctrl_step a env st)) (kept_open (status (ctrl_step a env st)))"
proof (cases "status st = Running")
  case False
  then show ?thesis by (simp add: ctrl_step_def sampler_moves_def)
next
  case run: True
  show ?thesis
  proof (cases "fetch_batch env st")
    case (Inl r)
    then obtain e s1 where f: "fetch_batch env st = Inl (e, s1)" by (cases r) auto
    then have "s1 = st" by (rule fetch_batch_sampler(2))
    then show ?thesis using run f
      by (simp add: ctrl_step_def train_iteration_def bindE_def on_exception_def sampler_moves_def)
  next
    case (Inr r)
    then obtain b s1 where f: "fetch_batch env st = Inr (b, s1)" by (cases r) auto
    note nb = fetch_batch_sampler(1) [OF f]
    let ?c = "ctrl_step a env st"
    have q: "sampler_moves env (sampler st) (sampler ?c) (kept_open (status ?c))"
      if "sampler ?c = sampler s1 \<or> (sampler ?c = close_sampler env (sampler s1) \<and> \<not> kept_open (status ?c))"
      using nb that unfolding sampler_moves_def by (elim disjE conjE) (metis, blast)
    have "sampler ?c = sampler s1 \<or> (sampler ?c = close_sampler env (sampler s1) \<and> \<not> kept_open (status ?c))"
    proof (cases "train_on_batch a env b s1")
      case (Inl r2)
      then obtain e s2 where t: "train_on_batch a env b s1 = Inl (e, s2)" by (cases r2) auto
      then have "s2 = s1" by (rule train_on_batch_frame(2))
      then show ?thesis using run f t
        by (simp add: ctrl_step_def train_iteration_def bindE_def on_exception_def)
    next
      case (Inr r2)
      then obtain u s2 where t: "train_on_batch a env b s1 = Inr (u, s2)" by (cases r2) auto
      have s2: "sampler s2 = sampler s1" by (rule train_on_batch_sampler [OF t])
      show ?thesis
      proof (cases "log_check a s2")
        case (Inl r3)
        then obtain e s3 where l: "log_check a s2 = Inl (e, s3)" by (cases r3) auto
        then have "s3 = s2" by (rule log_check_frame(2))
        then show ?thesis using run f t l s2
          by (simp add: ctrl_step_def train_iteration_def bindE_def on_exception_def)
      next
        case (Inr r3)
        then obtain u3 s3 where l: "log_check a s2 = Inr (u3, s3)" by (cases r3) auto
        have s3: "sampler s3 = sampler s1" using log_check_sampler [OF l] s2 by simp
        show ?thesis
        proof (cases "eval_check a env s3")
          case (Inl r4)
          then obtain e s4 where "eval_check a env s3 = Inl (e, s4)" by (cases r4) auto
          moreover from this have "sampler s4 = sampler s1" using eval_check_sampler(2) s3 by metis
          ultimately show ?thesis using run f t l
            by (simp add: ctrl_step_def train_iteration_def bindE_def on_exception_def)
        next
          case (Inr r4)
          then obtain brk s4 where "eval_check a env s3 = Inr (brk, s4)" by (cases r4) auto
          moreover from this have "sampler s4 = sampler s1" using eval_check_sampler(1) s3 by metis
          ultimately show ?thesis using run f t l
            by (simp add: ctrl_step_def train_iteration_def bindE_def finish_def)
        qed
      qed
    qed
    then show ?thesis using q by blast
  qed
qed

lemma pool_pop_step: "pool_pop p = Some (b, p') \<Longrightarrow> pool_step p p' \<and> closed p' = closed p"
  by (auto simp: pool_pop_def intro: pool_step.pop split: list.splits)

lemma pool_next_reachable:
  assumes "pool_reachable cap p" and "pool_next (p, ws) = Inr (b, h')"
  shows "pool_reachable cap (fst h') \<and> closed (fst h') = closed p"
proof (cases "pool_pop p")
  case (Some x)
  then obtain b' p' where o: "pool_pop p = Some (b', p')" by (cases x) auto
  then have "h' = (p', ws)" using assms(2) by (simp add: pool_next_def)
  then show ?thesis using pool_pop_step [OF o] assms(1) by (auto intro: pool_reachable.step)
next
  case None
  then obtain p1 where u: "pool_push (shd ws) p = Some p1"
    using assms(2) by (auto simp: pool_next_def split: option.splits)
  then obtain b' p' where o: "pool_pop p1 = Some (b', p')" and h: "h' = (p', stl ws)"
    using assms(2) None by (auto simp: pool_next_def split: option.splits)
  have "closed p1 = closed p" using u by (auto simp: pool_push_def split: if_splits)
  moreover have "pool_reachable cap p1" using assms(1) u by (blast intro: pool_reachable.step pool_step.push)
  ultimately show ?thesis using h pool_pop_step [OF o] by (auto intro: pool_reachable.step)
qed

lemma handle_close_reachable: "pool_reachable cap (fst h) \<Longrightarrow> pool_reachable cap (fst (handle_close h))"
  by (auto simp: handle_close_def intro: pool_reachable.step pool_step.close)

lemma ctrl_step_kept_open_before: "kept_open (status (ctrl_step a env st)) \<Longrightarrow> kept_open (status st)"
  by (cases "status st = Running") (simp_all add: ctrl_step_def)

lemma wire_fields [simp]:
  "next_batch (wire env) = pool_next" "close_sampler (wire env) = handle_close"
  by (simp_all add: wire_def)

lemma prog_inv_step:
  assumes inv: "prog_inv cap st"
  shows "prog_inv cap (ctrl_step a (wire env) st)"
proof -
  let ?c = "ctrl_step a (wire env) st"
  let ?q = "sampler st" and ?q' = "sampler ?c"
  have r: "pool_reachable cap (fst ?q)" and o: "kept_open (status st) \<Longrightarrow> \<not> closed (fst ?q)"
    using inv by (simp_all add: prog_inv_def)
  have nx: "pool_reachable cap (fst h') \<and> closed (fst h') = closed (fst ?q)"
    if "pool_next ?q = Inr (b, h')" for b h'
    using pool_next_reachable [OF r, of "snd ?q" b h'] that by simp
  have rb: "kept_open (status ?c) \<Longrightarrow> kept_open (status st)" by (rule ctrl_step_kept_open_before)
  have "sampler_moves (wire env) ?q ?q' (kept_open (status ?c))" by (rule ctrl_step_sampler)
  then consider (same) "?q' = ?q" | (popped) b where "pool_next ?q = Inr (b, ?q')"
    | (closed) "\<not> kept_open (status ?c)" "?q' = handle_close ?q"
    | (popped_closed) b q1 where "\<not> kept_open (status ?c)" "pool_next ?q = Inr (b, q1)" "?q' = handle_close q1"
    unfolding sampler_moves_def by auto
  then show ?thesis
  proof cases
    case same
    then show ?thesis using r o rb by (simp add: prog_inv_def)
  next
    case popped
    then show ?thesis using nx [OF popped] o rb by (simp add: prog_inv_def)
  next
    case closed
    then show ?thesis using handle_close_reachable [OF r] by (simp add: prog_inv_def)
  next
    case popped_closed
    then show ?thesis using handle_close_reachable [of cap q1] nx [OF popped_closed(2)]
      by (simp add: prog_inv_def)
  qed
qed

lemma reachable_prog_inv:
  "reachable a (wire env) p0 (make_pool cap, ws) st \<Longrightarrow> prog_inv cap st"
proof (induction rule: reachable.induct)
  case start
  show ?case unfolding prog_inv_def init_state_def using pool_reachable.init [of cap]
    by (simp add: make_pool_def)
next
  case (step st)
  from step.IH show ?case by (rule prog_inv_step)
qed

lemma wired_handle_inv:
  assumes nxt: "\<And>h b h'. I h \<Longrightarrow> pool_next h = Inr (b, h') \<Longrightarrow> I h'"
    and cl: "\<And>h. I h \<Longrightarrow> I (handle_close h)" and inv: "I (sampler st)"
  shows "I (sampler (ctrl_step a (wire env) st))"
proof -
  let ?q = "sampler st" and ?q' = "sampler (ctrl_step a (wire env) st)"
  have "sampler_moves (wire env) ?q ?q' (kept_open (status (ctrl_step a (wire env) st)))"
    by (rule ctrl_step_sampler)
  then consider "?q' = ?q" | b where "pool_next ?q = Inr (b, ?q')" | "?q' = handle_close ?q"
    | b q1 where "pool_next ?q = Inr (b, q1)" "?q' = handle_close q1"
    unfolding sampler_moves_def by auto
  then show ?thesis using inv nxt cl by cases metis+
qed

lemma pool_next_handle_ok:
  assumes ok: "handle_ok P h" and n: "pool_next h = Inr (b, h')"
  shows "handle_ok P h' \<and> P b"
proof -
  obtain p ws where h: "h = (p, ws)" by (cases h)
  have hd: "P (shd ws)" using ok h stream.set_sel(1) by (auto simp: handle_ok_def)
  have tl: "\<forall>x \<in> sset (stl ws). P x" using ok h by (auto simp: handle_ok_def dest: stream.set_sel(2))
  show ?thesis
  proof (cases "queue p")
    case (Cons b' q)
    then show ?thesis using n ok h by (auto simp: pool_next_def pool_pop_def handle_ok_def)
  next
    case Nil
    then show ?thesis using n ok h hd tl
      by (auto simp: pool_next_def pool_pop_def pool_push_def handle_ok_def split: if_splits)
  qed
qed

lemma handle_close_ok: "handle_ok P h \<Longrightarrow> handle_ok P (handle_close h)"
  by (simp add: handle_ok_def handle_close_def pool_close_def)

lemma reachable_handle_ok:
  assumes "reachable a (wire env) p0 q0 st" and "handle_ok P q0"
  shows "handle_ok P (sampler st)"
  using assms(1)
proof (induction rule: reachable.induct)
  case start
  then show ?case using assms(2) by (simp add: init_state_def)
next
  case (step st)
  show ?case
  proof (rule wired_handle_inv [where I = "handle_ok P", OF _ _ step.IH])
    show "handle_ok P h'" if "handle_ok P h" "pool_next h = Inr (b, h')" for h b h'
      using pool_next_handle_ok [OF that] by simp
  qed (rule handle_close_ok)
qed

lemma batch_ok_args: "batch_ok (make_sampler_config a n_items n_users) = args_batch_ok a"
  by (simp add: fun_eq_iff batch_ok_def sample_ok_def [abs_def] make_sampler_config_def args_batch_ok_def)

lemma evaluate_Nil: "evaluate scorer [] = Inl ZeroDivisionError"
  by (simp add: evaluate_def)

lemmas wired_run_simps = run_simps toy_simps py_index_def numeral_eq_Suc Let_def pool_next_def
  pool_pop_def pool_push_def make_pool_def handle_close_def pool_close_def wire_def

section \<open>Properties of the composed program\<close>

text \<open>
  C27. In the program as wired at lines 55--63 and 109, 149--151 (the controller of
  \<^verbatim>\<open>main()\<close> with the sampler pool as its \<^verbatim>\<open>train_sampler\<close>), every reachable
  state keeps the pool within its capacity and in FIFO order (the batches trained on,
  then those queued, are the batches the workers produced), and every exit through an
  \<^verbatim>\<open>Exception\<close> or through convergence leaves the pool closed.
\<close>

theorem program_pool_invariant:
  assumes "reachable a (wire env) p0 (make_pool cap, ws) st"
  shows "length (queue (fst (sampler st))) \<le> cap
         \<and> consumed (fst (sampler st)) @ queue (fst (sampler st)) = produced (fst (sampler st))
         \<and> (status st = Converged \<or> (\<exists>e. status st = Failed e) \<longrightarrow> closed (fst (sampler st)))"
proof -
  have p: "pool_inv (fst (sampler st)) \<and> capacity (fst (sampler st)) = cap"
    using reachable_prog_inv [OF assms] pool_reachable_inv [of cap "fst (sampler st)"]
    by (simp add: prog_inv_def)
  have e: "exit_ok (wire env) st" using reachable_inv [OF assms] by simp
  have "status st = Converged \<or> (\<exists>e. status st = Failed e) \<Longrightarrow> closed (fst (sampler st))"
    using e by (auto simp: exit_ok_def wire_def handle_close_def pool_close_def)
  then show ?thesis using p by (auto simp: pool_inv_def)
qed

theorem program_pool_invariant_witness:
  "status (run 4 toy_args (wire (toy_env (\<lambda>_. 1/10))) (init_state toy_args 0 (make_pool 2, sconst ()))) = Converged
   \<and> closed (fst (sampler (run 4 toy_args (wire (toy_env (\<lambda>_. 1/10))) (init_state toy_args 0 (make_pool 2, sconst ())))))
   \<and> length (queue (fst (sampler (run 4 toy_args (wire (toy_env (\<lambda>_. 1/10))) (init_state toy_args 0 (make_pool 2, sconst ())))))) \<le> 2"
proof -
  let ?st = "run 4 toy_args (wire (toy_env (\<lambda>_. 1/10))) (init_state toy_args 0 (make_pool 2, sconst ()))"
  have r: "reachable toy_args (wire (toy_env (\<lambda>_. 1/10))) 0 (make_pool 2, sconst ()) ?st"
    by (rule reachable_run [OF reachable.start])
  have s: "status ?st = Converged" by (simp add: wired_run_simps)
  show ?thesis using s program_pool_invariant [OF r] by simp
qed

text \<open>
  C30. Every batch the wired program trains on is a well-formed mini-batch: when each
  batch of the workers' stream is built by a worker with the configuration of lines
  55--63 (the same \<open>args\<close> as the controller), every batch the pool has produced and
  the batch \<^verbatim>\<open>next_batch()\<close> hands to the optimiser at line 109 have
  \<^verbatim>\<open>args.batch_size\<close> samples of \<^verbatim>\<open>args.seq_len\<close> positions,
  \<^verbatim>\<open>args.neg_size\<close> negatives per position, and no negative equal to its positive.
\<close>

theorem program_batches_well_formed:
  assumes "reachable a (wire env) p0 (make_pool cap, ws) st"
    and "\<forall>b \<in> sset ws. \<exists>picks ds r. sc_batch_size (make_sampler_config a n_items n_users) \<le> length picks
                            \<and> worker_batch (make_sampler_config a n_items n_users) picks ds = Some (b, r)"
  shows "list_all (args_batch_ok a) (produced (fst (sampler st)))
         \<and> (\<forall>b h'. next_batch (wire env) (sampler st) = Inr (b, h') \<longrightarrow> args_batch_ok a b)"
proof -
  let ?P = "batch_ok (make_sampler_config a n_items n_users)"
  have "handle_ok ?P (make_pool cap, ws)"
    using assms(2) worker_batch_ok by (fastforce simp: handle_ok_def make_pool_def)
  then have h: "handle_ok ?P (sampler st)" by (rule reachable_handle_ok [OF assms(1)])
  then show ?thesis using pool_next_handle_ok [OF h] by (simp add: handle_ok_def batch_ok_args)
qed

theorem program_batches_well_formed_witness:
  "next_batch (wire trainer_env) (make_pool 2, sconst [\<lparr>s_user = 1, s_input = [3, 4], s_pos = [4, 5], s_neg = [[7], [8]]\<rparr>])
     = Inr ([\<lparr>s_user = 1, s_input = [3, 4], s_pos = [4, 5], s_neg = [[7], [8]]\<rparr>],
            (\<lparr>queue = [], capacity = 2, closed = False,
               produced = [[\<lparr>s_user = 1, s_input = [3, 4], s_pos = [4, 5], s_neg = [[7], [8]]\<rparr>]],
               consumed = [[\<lparr>s_user = 1, s_input = [3, 4], s_pos = [4, 5], s_neg = [[7], [8]]\<rparr>]]\<rparr>,
             sconst [\<lparr>s_user = 1, s_input = [3, 4], s_pos = [4, 5], s_neg = [[7], [8]]\<rparr>]))
   \<and> args_batch_ok worker_example_args
       [\<lparr>s_user = 1, s_input = [3, 4], s_pos = [4, 5], s_neg = [[7], [8]]\<rparr>]"
proof -
  let ?B = "[\<lparr>s_user = 1, s_input = [3, 4], s_pos = [4, 5], s_neg = [[7], [8]]\<rparr>]"
  let ?cfg = "make_sampler_config worker_example_args 10 1"
  have w: "worker_batch ?cfg [(1, [3, 4, 5], 2)] [3, 7, 4, 8] = Some (?B, [])"
    by (simp add: worker_batch_def sample_user_def make_sampler_config_def worker_example_args_def
                  sampler_example_args_def default_args_def pad_window_def numeral_eq_Suc)
  have l: "sc_batch_size ?cfg \<le> length [(1 :: user, [3, 4, 5 :: item], 2 :: nat)]"
    by (simp add: make_sampler_config_def worker_example_args_def)
  have h: "\<forall>b \<in> sset (sconst ?B). \<exists>picks ds r. sc_batch_size ?cfg \<le> length picks \<and> worker_batch ?cfg picks ds = Some (b, r)"
    using w l by (simp only: sset_sconst singleton_iff ball_simps) blast
  have r: "reachable worker_example_args (wire trainer_env) 0 (make_pool 2, sconst ?B)
             (init_state worker_example_args 0 (make_pool 2, sconst ?B))"
    by (rule reachable.start)
  have n: "next_batch (wire trainer_env) (make_pool 2, sconst ?B)
     = Inr (?B, (\<lparr>queue = [], capacity = 2, closed = False, produced = [?B], consumed = [?B]\<rparr>, sconst ?B))"
    by (simp add: wire_def pool_next_def pool_pop_def pool_push_def make_pool_def)
  show ?thesis using program_batches_well_formed [OF r h] n by (simp add: init_state_def)
qed

text \<open>
  C31. An empty validation set makes the first evaluation fail: with the batches of line
  65 built from no users, \<^verbatim>\<open>evaluate\<close> divides by a zero target count at step
  \<^verbatim>\<open>eval_interval\<close>, and \<^verbatim>\<open>main()\<close> returns through the \<^verbatim>\<open>except\<close> clause with
  exit status 1 and the sampler closed.
\<close>

theorem empty_validation_fails:
  assumes nb: "\<forall>q. \<exists>b q'. next_batch env q = Inr (b, q')"
    and tr: "\<forall>p b l d. \<exists>p' x. train_op env p b l d = Inr (p', x)"
    and li: "0 < log_interval a" and ei: "0 < eval_interval a"
    and vd: "val_batches [] = Inr (val_data env)"
  shows "\<exists>st. main a env p0 q0 = Some st \<and> status st = Failed ZeroDivisionError \<and> exit_code st = Some 1
              \<and> step_count st = eval_interval a \<and> (\<exists>q. sampler st = close_sampler env q)"
proof -
  let ?N = "nat (eval_interval a)"
  define k where "k = ?N - 1"
  have k: "?N = Suc k" "k < ?N" using ei by (simp_all add: k_def)
  let ?s0 = "init_state a p0 q0"
  have s0: "status ?s0 = Running" "step_count ?s0 mod eval_interval a = 0"
    by (simp_all add: init_state_def)
  note q = quiet_run [OF nb tr li ei s0 k(2)]
  obtain st1 where t: "train_iteration a env (run k a env ?s0) = eval_check a env st1"
    and f: "step_count st1 = step_count (run k a env ?s0) + 1"
    using total_prefix [OF nb tr li] by metis
  have e1: "step_count st1 = eval_interval a" using f q k(1) ei by (simp add: init_state_def)
  have v: "val_data env = []" using vd by (simp add: val_batches_def prepare_eval_test_def)
  have "eval_check a env st1 = Inl (ZeroDivisionError, st1)"
    using e1 ei v by (simp add: eval_check_def py_mod_def evaluate_Nil)
  then have c: "ctrl_step a env (run k a env ?s0) = on_exception env ZeroDivisionError st1"
    using t q by (simp add: ctrl_step_def)
  let ?st = "on_exception env ZeroDivisionError st1"
  have r: "run ?N a env ?s0 = ?st"
    using c k(1) by (simp add: run_Suc_last del: run.simps(2))
  have s: "status ?st = Failed ZeroDivisionError" "exit_code ?st = Some 1"
    "step_count ?st = eval_interval a" "sampler ?st = close_sampler env (sampler st1)"
    using e1 by (simp_all add: on_exception_def)
  then have "main a env p0 q0 = Some ?st"
    using main_loop_of_run [of ?N a env ?s0] r by (simp add: main_def)
  then show ?thesis using s by blast
qed

theorem empty_validation_fails_witness:
  "\<exists>st. main toy_args empty_val_env 0 False = Some st \<and> status st = Failed ZeroDivisionError
        \<and> exit_code st = Some 1 \<and> step_count st = 1"
proof -
  have nb: "\<forall>q. \<exists>b q'. next_batch empty_val_env q = Inr (b, q')" by (simp add: empty_val_env_def)
  have tr: "\<forall>p b l d. \<exists>p' x. train_op empty_val_env p b l d = Inr (p', x)" by (simp add: empty_val_env_def)
  have li: "0 < log_interval toy_args" and ei: "0 < eval_interval toy_args"
    by (simp_all add: toy_args_def default_args_def)
  have vd: "val_batches [] = Inr (val_data empty_val_env)"
    by (simp add: val_batches_def prepare_eval_test_def empty_val_env_def)
  have e: "eval_interval toy_args = 1" by (simp add: toy_args_def)
  show ?thesis using empty_validation_fails [OF nb tr li ei vd, of 0 False] e by auto
qed

text \<open>
  C33. A \<^verbatim>\<open>KeyboardInterrupt\<close> leaves the workers running: in the wired program,
  every state in which the loop was killed by an exception outside \<^verbatim>\<open>Exception\<close>
  still has an open pool, since lines 147--150 never run and line 151 is not reached.
\<close>

theorem interrupt_leaves_pool_open:
  assumes "reachable a (wire env) p0 (make_pool cap, ws) st" and "status st = Aborted e"
  shows "\<not> closed (fst (sampler st))"
  using reachable_prog_inv [OF assms(1)] assms(2) by (simp add: prog_inv_def)

theorem interrupt_leaves_pool_open_witness:
  "status (run 1 toy_args (wire kbi_train_env) (init_state toy_args 0 (make_pool 2, sconst ()))) = Aborted KeyboardInterrupt
   \<and> \<not> closed (fst (sampler (run 1 toy_args (wire kbi_train_env) (init_state toy_args 0 (make_pool 2, sconst ())))))"
proof -
  let ?st = "run 1 toy_args (wire kbi_train_env) (init_state toy_args 0 (make_pool 2, sconst ()))"
  have r: "reachable toy_args (wire kbi_train_env) 0 (make_pool 2, sconst ()) ?st"
    by (rule reachable_run [OF reachable.start])
  have s: "status ?st = Aborted KeyboardInterrupt" by (simp add: wired_run_simps kbi_train_env_def)
  show ?thesis using s interrupt_leaves_pool_open [OF r s] by simp
qed

end
